theory Spec2Isabelle
  imports Complex_Main "HOL-Library.AList"
begin

section \<open>Serial frame decoder (class SerialHandler)\<close>

text \<open>
  The wire carries newline-terminated ASCII lines. Strings are modelled as lists of
  8-bit characters. \<open>String.prototype.trim\<close> and \<open>parseInt\<close> skip the ECMAScript
  white space characters; those that fit into a byte are TAB, LF, VT, FF, CR, SP and NBSP.
\<close>

definition is_white_space :: "char \<Rightarrow> bool" where
  "is_white_space c =
     (c \<in> set [CHR 0x09, CHR 0x0A, CHR 0x0B, CHR 0x0C, CHR 0x0D, CHR 0x20, CHR 0xA0])"

definition trim :: "string \<Rightarrow> string" where
  "trim s = rev (dropWhile is_white_space (rev (dropWhile is_white_space s)))"

text \<open>
  \<open>s.split(sep)\<close> for a one-character separator: the pieces between the separators,
  empty pieces included; the result is never the empty array.
\<close>

fun js_split :: "char \<Rightarrow> string \<Rightarrow> string list" where
  "js_split sep [] = [[]]"
| "js_split sep (c # cs) =
     (if c = sep then [] # js_split sep cs
      else (case js_split sep cs of
              [] \<Rightarrow> [[c]]
            | t # ts \<Rightarrow> (c # t) # ts))"

text \<open>
  \<open>parseInt(string)\<close> with no radix (ECMA-262, 19.2.5): skip leading white space, read an
  optional sign, switch to radix 16 after a \<open>0x\<close>/\<open>0X\<close> prefix, then read the longest
  run of digits of the radix. No digit at all is NaN, here \<open>None\<close>. The result is modelled
  as an unbounded integer; JavaScript rounds large values to a double (and \<open>-0\<close> is a value
  of its own), which the clamp below does not distinguish.
\<close>

definition digit_of :: "nat \<Rightarrow> char \<Rightarrow> nat option" where
  "digit_of radix c =
     (let n = (of_char c :: nat);
          d = (if 48 \<le> n \<and> n \<le> 57 then Some (n - 48)
               else if 97 \<le> n \<and> n \<le> 122 then Some (n - 87)
               else if 65 \<le> n \<and> n \<le> 90 then Some (n - 55)
               else None)
      in case d of
           None \<Rightarrow> None
         | Some v \<Rightarrow> if v < radix then Some v else None)"

fun digits :: "nat \<Rightarrow> string \<Rightarrow> nat list" where
  "digits radix [] = []"
| "digits radix (c # cs) =
     (case digit_of radix c of
        None \<Rightarrow> []
      | Some d \<Rightarrow> d # digits radix cs)"

definition to_number :: "nat \<Rightarrow> nat list \<Rightarrow> nat" where
  "to_number radix ds = foldl (\<lambda>acc d. acc * radix + d) 0 ds"

definition parseInt :: "string \<Rightarrow> int option" where
  "parseInt str =
     (let s = dropWhile is_white_space str;
          (sign, s1) = (case s of
                          [] \<Rightarrow> (1, s)
                        | c # cs \<Rightarrow> if c = CHR ''-'' then (- 1, cs)
                                    else if c = CHR ''+'' then (1, cs)
                                    else (1, s));
          (radix, s2) = (case s1 of
                           a # b # cs \<Rightarrow>
                             if a = CHR ''0'' \<and> (b = CHR ''x'' \<or> b = CHR ''X'')
                             then (16, cs) else (10, s1)
                         | _ \<Rightarrow> (10, s1));
          z = digits radix s2
      in if z = [] then None else Some (sign * int (to_number radix z)))"

text \<open>
  The callback of \<open>values.map\<close> in \<open>parseSerialData\<close>:
  \<^verbatim>\<open>const trimmed = val.trim();
  const pressure = parseInt(trimmed) || 0;
  const clamped = Math.max(0, Math.min(255, pressure));\<close>
\<close>

definition clamped :: "string \<Rightarrow> int" where
  "clamped val =
     (let trimmed = trim val;
          pressure = (case parseInt trimmed of None \<Rightarrow> 0 | Some n \<Rightarrow> n)
      in max 0 (min 255 pressure))"

text \<open>
  The handler's state, as far as decoding goes. \<open>onDataReceived\<close> says whether a callback
  is registered; \<open>delivered\<close> lists the frames handed to it, oldest first; \<open>malformed\<close>
  counts the "Malformed line" diagnostics written to the console.
\<close>

record serial_handler =
  readBuffer :: string
  onDataReceived :: bool
  delivered :: "int list list"
  malformed :: nat

definition parseSerialData :: "serial_handler \<Rightarrow> string \<Rightarrow> serial_handler" where
  "parseSerialData h line =
     (let values = js_split CHR '','' line
      in if length values = 100
         then (let pressureMatrix = map clamped values
               in if onDataReceived h
                  then h\<lparr>delivered := delivered h @ [pressureMatrix]\<rparr>
                  else h)
         else h\<lparr>malformed := Suc (malformed h)\<rparr>)"

text \<open>
  \<open>processIncomingData\<close>: append the chunk to the buffer, split at newlines, keep the last
  piece (\<open>lines.pop() || ''\<close>) as the new buffer and parse every other piece that is not
  blank after trimming.
\<close>

definition handle_line :: "serial_handler \<Rightarrow> string \<Rightarrow> serial_handler" where
  "handle_line h line = (let l = trim line in if l \<noteq> [] then parseSerialData h l else h)"

definition processIncomingData :: "serial_handler \<Rightarrow> string \<Rightarrow> serial_handler" where
  "processIncomingData h data =
     (let lines = js_split CHR 0x0A (readBuffer h @ data);
          h1 = h\<lparr>readBuffer := (case rev lines of [] \<Rightarrow> [] | l # _ \<Rightarrow> l)\<rparr>
      in foldl handle_line h1 (butlast lines))"

text \<open>
  The frames that a list of complete lines yields: one frame for every line that is not
  blank and splits into exactly 100 tokens, in the order of the lines.
\<close>

definition frames_of :: "string list \<Rightarrow> int list list" where
  "frames_of ls =
     map (\<lambda>l. map clamped (js_split CHR '','' (trim l)))
       (filter (\<lambda>l. trim l \<noteq> [] \<and> length (js_split CHR '','' (trim l)) = 100) ls)"

section \<open>Audio routing engine (class AudioEngine)\<close>

subsection \<open>Effects\<close>

text \<open>
  An effect is \<open>{ active, nodes }\<close>. \<open>nodes\<close> maps a node's name to the value of the one
  AudioParam of that node which the engine reads and writes: \<open>delayTime\<close> of a delay,
  \<open>gain\<close> of a gain node, \<open>frequency\<close> of an oscillator or a biquad filter. Nodes whose
  parameters the engine never touches (the input and mixer gains, the convolver, the wave
  shaper) are present with their initial value (gain 1) or with 0. The wiring inside an
  effect is fixed at creation and is not modelled. Parameter values are finite numbers,
  taken as reals: no arithmetic is done on them.
\<close>

record effect =
  active :: bool
  nodes :: "string \<rightharpoonup> real"

definition createEffectNodes :: "string \<Rightarrow> (string \<rightharpoonup> real)" where
  "createEffectNodes effectName =
     (if effectName = ''pitchshifter'' then
        map_of [(''input'', 1), (''delay1'', 0.015), (''delay2'', 0.12), (''feedback1'', 0.6),
                (''feedback2'', 0.5), (''mixer'', 1), (''output'', 1.2)]
      else if effectName = ''ringmod'' then
        map_of [(''input'', 1), (''oscillator'', 30), (''modGain'', 0), (''output'', 0.5)]
      else if effectName = ''freezer'' then
        map_of [(''input'', 1), (''convolver'', 0), (''output'', 0.8)]
      else if effectName = ''vibrato'' then
        map_of [(''input'', 1), (''delay'', 0.01), (''lfo'', 5), (''lfoGain'', 0.005),
                (''output'', 1.0)]
      else if effectName = ''filterdelay'' then
        map_of [(''input'', 1), (''filter'', 2000), (''delay'', 0.2), (''feedback'', 0.3),
                (''output'', 0.8)]
      else if effectName = ''octaver'' then
        map_of [(''input'', 1), (''waveshaper'', 0), (''filter'', 1000), (''output'', 0.8)]
      else Map.empty)"

definition effect_names :: "string list" where
  "effect_names =
     [''pitchshifter'', ''ringmod'', ''freezer'', ''vibrato'', ''filterdelay'', ''octaver'']"

text \<open>
  A voice is the entry \<open>{ source, effectName, dryGain, wetGain }\<close> of
  \<open>activeLoopedSources\<close>; \<open>effectName\<close> is \<open>None\<close> for JavaScript's \<open>null\<close>, and the two
  gains are the \<open>gain.value\<close> of the gain nodes. The buffer source itself lives in the
  audio graph: \<open>playing\<close> lists, by grid index, the sources that were started and not yet
  stopped.
\<close>

record voice =
  effectName :: "string option"
  dryGain :: real
  wetGain :: real

text \<open>
  The engine. \<open>webAudioEffects\<close> holds the own properties of the object of that name, by
  effect name; \<open>bus\<close> holds the names of the effects whose input and output nodes
  are connected between \<open>effectsInput\<close> and \<open>effectsOutput\<close>; \<open>activeLoopedSources\<close> is the
  \<open>Map\<close> from grid index to voice, in insertion order; \<open>masterTaps\<close> lists the media
  recorders that are recording the master bus, \<open>performanceRecorder\<close> is the recorder the
  engine remembers and \<open>recordersCreated\<close> numbers them.
\<close>

record audio_engine =
  webAudioEffects :: "string \<rightharpoonup> effect"
  bus :: "string set"
  activeLoopedSources :: "(int \<times> voice) list"
  playing :: "int list"
  masterTaps :: "nat list"
  performanceRecorder :: "nat option"
  recordersCreated :: nat

text \<open>The engine after \<open>createWebAudioEffects\<close>: six effects, none active, nothing playing.\<close>

definition engine_loaded :: audio_engine where
  "engine_loaded =
     \<lparr>webAudioEffects =
        map_of (map (\<lambda>n. (n, \<lparr>active = False, nodes = createEffectNodes n\<rparr>)) effect_names),
      bus = {}, activeLoopedSources = [], playing = [],
      masterTaps = [], performanceRecorder = None, recordersCreated = 0\<rparr>"

text \<open>
  \<open>webAudioEffects\<close> is created as the object literal \<open>{}\<close>, so the lookup
  \<open>this.webAudioEffects[effectName]\<close> finds an own property (an effect), or else a property
  that every plain object inherits from \<open>Object.prototype\<close> (a function, or the prototype
  itself for \<open>__proto__\<close>), or else \<open>undefined\<close>. An inherited value is truthy and has
  neither \<open>active\<close> nor \<open>nodes\<close>.
\<close>

definition object_prototype :: "string list" where
  "object_prototype =
     [''constructor'', ''__defineGetter__'', ''__defineSetter__'', ''hasOwnProperty'',
      ''__lookupGetter__'', ''__lookupSetter__'', ''isPrototypeOf'', ''propertyIsEnumerable'',
      ''toString'', ''valueOf'', ''__proto__'', ''toLocaleString'']"

datatype property = Undefined | Inherited | Own effect

definition effect_of :: "audio_engine \<Rightarrow> string \<Rightarrow> property" where
  "effect_of e name =
     (case webAudioEffects e name of
        Some eff \<Rightarrow> Own eff
      | None \<Rightarrow> if name \<in> set object_prototype then Inherited else Undefined)"

text \<open>
  \<open>applyEffect(effectName, isActive)\<close> returns its boolean together with the new engine.
  The \<open>connect\<close> calls on existing nodes do not throw; \<open>disconnect\<close> may, and is caught.
  For an inherited value \<open>effect.active\<close> is \<open>undefined\<close>: activating reads
  \<open>effect.nodes.input\<close>, which throws a TypeError that the outer \<open>catch\<close> turns into \<open>false\<close>,
  and deactivating takes neither branch and returns \<open>true\<close>.
\<close>

definition applyEffect :: "audio_engine \<Rightarrow> string \<Rightarrow> bool \<Rightarrow> bool \<times> audio_engine" where
  "applyEffect e name isActive =
     (case effect_of e name of
        Undefined \<Rightarrow> (False, e)
      | Inherited \<Rightarrow> (if isActive then (False, e) else (True, e))
      | Own eff \<Rightarrow>
          if isActive \<and> \<not> active eff then
            (if nodes eff ''input'' \<noteq> None \<and> nodes eff ''output'' \<noteq> None
             then (True, e\<lparr>bus := insert name (bus e),
                            webAudioEffects := (webAudioEffects e)(name \<mapsto> eff\<lparr>active := True\<rparr>)\<rparr>)
             else (False, e))
          else if \<not> isActive \<and> active eff then
            (True, e\<lparr>bus := (if nodes eff ''input'' \<noteq> None \<and> nodes eff ''output'' \<noteq> None
                                 then bus e - {name} else bus e),
                         webAudioEffects := (webAudioEffects e)(name \<mapsto> eff\<lparr>active := False\<rparr>)\<rparr>)
          else (True, e))"

text \<open>\<open>isEffectActive\<close> returns \<open>effect ? effect.active : false\<close>, which is falsy without an effect.\<close>

definition isEffectActive :: "audio_engine \<Rightarrow> string \<Rightarrow> bool" where
  "isEffectActive e name = (case effect_of e name of Own eff \<Rightarrow> active eff | _ \<Rightarrow> False)"

text \<open>
  \<open>getEffectParameter\<close> first returns 0 \<open>if (!effect || !effect.nodes)\<close>, that is unless the
  lookup finds an effect. Then a \<open>switch\<close> on the effect name and a chain of tests on the
  parameter id; a parameter whose node is missing yields the literal written in the
  source, and everything else falls through to \<open>return 0\<close>.
\<close>

definition node_or :: "(string \<rightharpoonup> real) \<Rightarrow> string \<Rightarrow> real \<Rightarrow> real" where
  "node_or ns node dflt = (case ns node of Some v \<Rightarrow> v | None \<Rightarrow> dflt)"

definition getEffectParameter :: "audio_engine \<Rightarrow> string \<Rightarrow> string \<Rightarrow> real" where
  "getEffectParameter e name paramId =
     (case effect_of e name of
        Undefined \<Rightarrow> 0
      | Inherited \<Rightarrow> 0
      | Own eff \<Rightarrow>
          (let ns = nodes eff in
           if name = ''pitchshifter'' then
             (if paramId = ''delay1'' then node_or ns ''delay1'' 0.015
              else if paramId = ''delay2'' then node_or ns ''delay2'' 0.12
              else if paramId = ''feedback1'' then node_or ns ''feedback1'' 0.6
              else if paramId = ''feedback2'' then node_or ns ''feedback2'' 0.5
              else if paramId = ''output'' then node_or ns ''output'' 1.2
              else 0)
           else if name = ''ringmod'' then
             (if paramId = ''frequency'' then node_or ns ''oscillator'' 30
              else if paramId = ''depth'' then node_or ns ''modGain'' 0
              else if paramId = ''output'' then node_or ns ''output'' 0.5
              else 0)
           else if name = ''freezer'' then
             (if paramId = ''output'' then node_or ns ''output'' 0.8 else 0)
           else if name = ''vibrato'' then
             (if paramId = ''rate'' then node_or ns ''lfo'' 5
              else if paramId = ''depth'' then node_or ns ''lfoGain'' 0.005
              else if paramId = ''output'' then node_or ns ''output'' 1.0
              else 0)
           else if name = ''filterdelay'' then
             (if paramId = ''frequency'' then node_or ns ''filter'' 2000
              else if paramId = ''delayTime'' then node_or ns ''delay'' 0.2
              else if paramId = ''feedback'' then node_or ns ''feedback'' 0.3
              else if paramId = ''output'' then node_or ns ''output'' 0.8
              else 0)
           else if name = ''octaver'' then
             (if paramId = ''frequency'' then node_or ns ''filter'' 1000
              else if paramId = ''output'' then node_or ns ''output'' 0.8
              else 0)
           else 0))"

text \<open>
  \<open>setEffectParameter\<close> returns \<open>false\<close> on the same first test; then the same \<open>switch\<close>;
  every line of a case is
  \<^verbatim>\<open>if (paramId === id && nodes.n) nodes.n.param.value = value;\<close>
  and the function returns \<open>true\<close> after the \<open>switch\<close>, whatever was matched.
\<close>

definition assign :: "string \<Rightarrow> string \<Rightarrow> string \<Rightarrow> real \<Rightarrow> (string \<rightharpoonup> real) \<Rightarrow> (string \<rightharpoonup> real)" where
  "assign paramId pid node v ns = (if paramId = pid \<and> ns node \<noteq> None then ns(node \<mapsto> v) else ns)"

definition set_nodes :: "string \<Rightarrow> string \<Rightarrow> real \<Rightarrow> (string \<rightharpoonup> real) \<Rightarrow> (string \<rightharpoonup> real)" where
  "set_nodes name paramId v ns =
     (if name = ''pitchshifter'' then
        (assign paramId ''output'' ''output'' v
          (assign paramId ''feedback2'' ''feedback2'' v
            (assign paramId ''feedback1'' ''feedback1'' v
              (assign paramId ''delay2'' ''delay2'' v
                (assign paramId ''delay1'' ''delay1'' v ns)))))
      else if name = ''ringmod'' then
        (assign paramId ''output'' ''output'' v
          (assign paramId ''depth'' ''modGain'' v
            (assign paramId ''frequency'' ''oscillator'' v ns)))
      else if name = ''freezer'' then
        assign paramId ''output'' ''output'' v ns
      else if name = ''vibrato'' then
        (assign paramId ''output'' ''output'' v
          (assign paramId ''depth'' ''lfoGain'' v
            (assign paramId ''rate'' ''lfo'' v ns)))
      else if name = ''filterdelay'' then
        (assign paramId ''output'' ''output'' v
          (assign paramId ''feedback'' ''feedback'' v
            (assign paramId ''delayTime'' ''delay'' v
              (assign paramId ''frequency'' ''filter'' v ns))))
      else if name = ''octaver'' then
        (assign paramId ''output'' ''output'' v
          (assign paramId ''frequency'' ''filter'' v ns))
      else ns)"

definition setEffectParameter :: "audio_engine \<Rightarrow> string \<Rightarrow> string \<Rightarrow> real \<Rightarrow> bool \<times> audio_engine" where
  "setEffectParameter e name paramId v =
     (case effect_of e name of
        Undefined \<Rightarrow> (False, e)
      | Inherited \<Rightarrow> (False, e)
      | Own eff \<Rightarrow>
          (True, e\<lparr>webAudioEffects :=
                      (webAudioEffects e)(name \<mapsto> eff\<lparr>nodes := set_nodes name paramId v (nodes eff)\<rparr>)\<rparr>))"

text \<open>The parameter ids that the \<open>switch\<close> of both functions tests for, by effect.\<close>

definition handled :: "string \<Rightarrow> string list" where
  "handled name =
     (if name = ''pitchshifter''
      then [''delay1'', ''delay2'', ''feedback1'', ''feedback2'', ''output'']
      else if name = ''ringmod'' then [''frequency'', ''depth'', ''output'']
      else if name = ''freezer'' then [''output'']
      else if name = ''vibrato'' then [''rate'', ''depth'', ''output'']
      else if name = ''filterdelay'' then [''frequency'', ''delayTime'', ''feedback'', ''output'']
      else if name = ''octaver'' then [''frequency'', ''output'']
      else [])"

text \<open>
  The sliders of \<open>setupEffectsControls\<close> (\<open>effectsConfig\<close>): effect, parameter id, minimum
  and maximum. This table is the only place where the source states a range.
\<close>

definition effectsConfig :: "(string \<times> string \<times> real \<times> real) list" where
  "effectsConfig =
     [(''pitchshifter'', ''delay1'', 0.005, 0.05), (''pitchshifter'', ''delay2'', 0.05, 0.2),
      (''pitchshifter'', ''feedback1'', 0, 0.8), (''pitchshifter'', ''feedback2'', 0, 0.8),
      (''pitchshifter'', ''output'', 0, 3),
      (''ringmod'', ''frequency'', 1, 500), (''ringmod'', ''depth'', 0, 1),
      (''ringmod'', ''output'', 0, 2),
      (''freezer'', ''output'', 0, 2),
      (''vibrato'', ''rate'', 0.1, 20), (''vibrato'', ''depth'', 0, 0.02),
      (''vibrato'', ''output'', 0, 2),
      (''filterdelay'', ''frequency'', 100, 10000), (''filterdelay'', ''delayTime'', 0.01, 1),
      (''filterdelay'', ''feedback'', 0, 0.8), (''filterdelay'', ''output'', 0, 2),
      (''octaver'', ''frequency'', 200, 2000), (''octaver'', ''output'', 0, 2)]"

subsection \<open>Looped voices\<close>

text \<open>
  The audio blob handed to \<open>startLoopedSampleWithEffect\<close> is modelled by what
  \<open>audioBlob.arrayBuffer()\<close> and \<open>decodeAudioData\<close> make of it: a buffer of some duration, or
  a rejection. The two \<open>await\<close>s stand before any node is created, so a rejection jumps into
  the \<open>catch\<close> block with nothing built.
\<close>

datatype blob = Decodable real | Undecodable

text \<open>A property key: \<open>null\<close> indexes an object as the string \<open>"null"\<close>.\<close>

definition property_key :: "string option \<Rightarrow> string" where
  "property_key name = (case name of None \<Rightarrow> ''null'' | Some n \<Rightarrow> n)"

definition stopLoopedSampleWithEffect :: "audio_engine \<Rightarrow> int \<Rightarrow> audio_engine" where
  "stopLoopedSampleWithEffect e gridIndex =
     (case map_of (activeLoopedSources e) gridIndex of
        None \<Rightarrow> e
      | Some v \<Rightarrow>
          (let e1 = e\<lparr>playing := remove1 gridIndex (playing e)\<rparr>;
               othersUsingEffect =
                 length (filter (\<lambda>a. effectName a = effectName v)
                           (map snd (activeLoopedSources e1)));
               e2 = (if othersUsingEffect \<le> 1
                     then snd (applyEffect e1 (property_key (effectName v)) False)
                     else e1)
           in e2\<lparr>activeLoopedSources := AList.delete gridIndex (activeLoopedSources e2)\<rparr>))"

text \<open>
  \<open>startLoopedSampleWithEffect\<close> is an \<open>async\<close> function. A call runs at once up to its first
  \<open>await\<close>: this part, \<open>startLoopedSampleWithEffect_enter\<close>, stops the voice that is
  registered for the grid index at that moment. The call is then suspended while the blob
  is read and decoded, and whatever else is called meanwhile runs on the engine. When the
  decoding has settled, the rest of the body, \<open>startLoopedSampleWithEffect_resume\<close>, runs on
  the engine as it is by then, up to the \<open>return\<close>, and yields the value of the promise.
\<close>

definition startLoopedSampleWithEffect_enter :: "audio_engine \<Rightarrow> int \<Rightarrow> audio_engine" where
  "startLoopedSampleWithEffect_enter e gridIndex =
     (if map_of (activeLoopedSources e) gridIndex \<noteq> None
      then stopLoopedSampleWithEffect e gridIndex else e)"

definition startLoopedSampleWithEffect_resume ::
  "audio_engine \<Rightarrow> int \<Rightarrow> blob \<Rightarrow> string option \<Rightarrow> real \<Rightarrow> bool \<times> audio_engine" where
  "startLoopedSampleWithEffect_resume e gridIndex audioBlob name volume =
     (case audioBlob of
        Undecodable \<Rightarrow>
          (False, (case name of
                     None \<Rightarrow> e
                   | Some n \<Rightarrow> if n \<noteq> [] then snd (applyEffect e n False) else e))
      | Decodable duration \<Rightarrow>
          (let (e1, dry, wet) =
                 (case name of
                    None \<Rightarrow> (e, 1.0, 0.0)
                  | Some n \<Rightarrow>
                      (let (effectActivated, e') = applyEffect e n True
                       in if effectActivated then (e', 0.3, 0.7) else (e', 1.0, 0.0)))
           in (True, e1\<lparr>playing := playing e1 @ [gridIndex],
                         activeLoopedSources :=
                           AList.update gridIndex
                             \<lparr>effectName = name, dryGain = dry, wetGain = wet\<rparr>
                             (activeLoopedSources e1)\<rparr>)))"

text \<open>
  The calls on the engine as the event loop runs them. \<open>awaiting\<close> holds the suspended
  calls of \<open>startLoopedSampleWithEffect\<close> with their arguments, by call number
  (\<open>callsMade\<close> numbers them), and \<open>returned\<close> logs the values of the settled promises.
  \<open>Start\<close> is a call, which runs up to its \<open>await\<close>; \<open>Resume k\<close> lets the suspended call
  \<open>k\<close> run to its end; \<open>Stop\<close> is a call of \<open>stopLoopedSampleWithEffect\<close>.
\<close>

record engine_calls =
  engine :: audio_engine
  awaiting :: "(nat \<times> int \<times> blob \<times> string option \<times> real) list"
  callsMade :: nat
  returned :: "(nat \<times> bool) list"

definition calls_init :: "audio_engine \<Rightarrow> engine_calls" where
  "calls_init e = \<lparr>engine = e, awaiting = [], callsMade = 0, returned = []\<rparr>"

datatype engine_event = Start int blob "string option" real | Resume nat | Stop int

definition engine_step :: "engine_calls \<Rightarrow> engine_event \<Rightarrow> engine_calls" where
  "engine_step c ev =
     (case ev of
        Start gridIndex audioBlob name volume \<Rightarrow>
          c\<lparr>engine := startLoopedSampleWithEffect_enter (engine c) gridIndex,
            awaiting := awaiting c @ [(callsMade c, gridIndex, audioBlob, name, volume)],
            callsMade := Suc (callsMade c)\<rparr>
      | Resume k \<Rightarrow>
          (case map_of (awaiting c) k of
             None \<Rightarrow> c
           | Some (gridIndex, audioBlob, name, volume) \<Rightarrow>
               (let r = startLoopedSampleWithEffect_resume (engine c) gridIndex audioBlob
                          name volume
                in c\<lparr>engine := snd r, awaiting := AList.delete k (awaiting c),
                     returned := returned c @ [(k, fst r)]\<rparr>))
      | Stop gridIndex \<Rightarrow>
          c\<lparr>engine := stopLoopedSampleWithEffect (engine c) gridIndex\<rparr>)"

definition engine_run :: "engine_calls \<Rightarrow> engine_event list \<Rightarrow> engine_calls" where
  "engine_run c evs = foldl engine_step c evs"

text \<open>The number of registered voices that reference an effect.\<close>

definition users :: "audio_engine \<Rightarrow> string \<Rightarrow> nat" where
  "users e name =
     length (filter (\<lambda>a. effectName a = Some name) (map snd (activeLoopedSources e)))"

text \<open>
  The reference-count rule: every effect is active exactly when a registered voice
  references it, and it is wired into the bus exactly when it is active.
\<close>

definition refcount_ok :: "audio_engine \<Rightarrow> bool" where
  "refcount_ok e =
     (\<forall>name eff. webAudioEffects e name = Some eff \<longrightarrow>
        (active eff \<longleftrightarrow> 0 < users e name) \<and> (name \<in> bus e \<longleftrightarrow> active eff))"

text \<open>
  One voice per region: the registry has one entry per grid index, and the sources that
  sound are exactly those of the registered voices.
\<close>

definition one_voice_per_region :: "audio_engine \<Rightarrow> bool" where
  "one_voice_per_region e =
     (distinct (map fst (activeLoopedSources e)) \<and> distinct (playing e)
      \<and> set (playing e) = set (map fst (activeLoopedSources e)))"

text \<open>
  Well-formed effects: \<open>"null"\<close> names no effect, and every effect has its input and output
  node (as \<open>createEffectNodes\<close> builds them for the six names).
\<close>

definition effects_ok :: "audio_engine \<Rightarrow> bool" where
  "effects_ok e =
     (webAudioEffects e ''null'' = None
      \<and> (\<forall>name eff. webAudioEffects e name = Some eff \<longrightarrow>
            nodes eff ''input'' \<noteq> None \<and> nodes eff ''output'' \<noteq> None))"

text \<open>The engine and the gains right before a decoded voice is registered.\<close>

definition wired :: "audio_engine \<Rightarrow> string option \<Rightarrow> audio_engine \<times> real \<times> real" where
  "wired e name =
     (case name of
        None \<Rightarrow> (e, 1, 0)
      | Some n \<Rightarrow>
          (snd (applyEffect e n True),
           if fst (applyEffect e n True) then (0.3, 0.7) else (1, 0)))"

text \<open>
  The sequences of calls in which every blob decodes and no start is called for a region
  while an earlier start for that region is still suspended. \<open>calls_ok\<close> is what such
  sequences maintain: the three properties above, and every suspended call has a blob that
  decodes and a region of its own for which no voice is registered.
\<close>

definition admissible :: "engine_calls \<Rightarrow> engine_event \<Rightarrow> bool" where
  "admissible c ev =
     (case ev of
        Start gridIndex audioBlob name volume \<Rightarrow>
          audioBlob \<noteq> Undecodable \<and> gridIndex \<notin> set (map (fst \<circ> snd) (awaiting c))
      | Resume k \<Rightarrow> True
      | Stop gridIndex \<Rightarrow> True)"

fun undisturbed :: "engine_calls \<Rightarrow> engine_event list \<Rightarrow> bool" where
  "undisturbed c [] = True"
| "undisturbed c (ev # evs) = (admissible c ev \<and> undisturbed (engine_step c ev) evs)"

definition calls_ok :: "engine_calls \<Rightarrow> bool" where
  "calls_ok c =
     (one_voice_per_region (engine c) \<and> effects_ok (engine c) \<and> refcount_ok (engine c)
      \<and> distinct (map (fst \<circ> snd) (awaiting c))
      \<and> (\<forall>p \<in> set (awaiting c).
            fst (snd (snd p)) \<noteq> Undecodable
            \<and> map_of (activeLoopedSources (engine c)) (fst (snd p)) = None))"

subsection \<open>Master capture\<close>

text \<open>
  \<open>startPerformanceRecording\<close> creates a media recorder on a new tap of the master gain,
  starts it and stores it in \<open>performanceRecorder\<close>. \<open>supported\<close> says whether the platform
  accepts the MIME type; if not, the constructor throws and the call rejects (\<open>None\<close>).
  \<open>stopPerformanceRecording\<close> stops the stored recorder if it is recording.
\<close>

definition startPerformanceRecording :: "audio_engine \<Rightarrow> bool \<Rightarrow> audio_engine option" where
  "startPerformanceRecording e supported =
     (if supported
      then Some (e\<lparr>masterTaps := masterTaps e @ [recordersCreated e],
                   performanceRecorder := Some (recordersCreated e),
                   recordersCreated := Suc (recordersCreated e)\<rparr>)
      else None)"

definition stopPerformanceRecording :: "audio_engine \<Rightarrow> audio_engine" where
  "stopPerformanceRecording e =
     (case performanceRecorder e of
        None \<Rightarrow> e
      | Some r \<Rightarrow> if r \<in> set (masterTaps e)
                  then e\<lparr>masterTaps := removeAll r (masterTaps e)\<rparr> else e)"

section \<open>The session (class AudioRugApp)\<close>

datatype mode = RECORD | PERFORM

datatype recording_state = idle | recording

text \<open>
  A pending debounce evaluation: the closure handed to \<open>setTimeout\<close> captures
  \<open>gridIndex\<close>, \<open>isPressed\<close> and \<open>maxPressureInRegion\<close> of the frame that scheduled it;
  \<open>due\<close> is the time (in ms) from which the timer may fire. A pressure is \<open>None\<close> for NaN
  (\<open>Math.max\<close> of an index outside the frame).
\<close>

record timeout =
  gridIndex :: nat
  isPressed :: bool
  maxPressureInRegion :: "int option"
  due :: nat

text \<open>
  The fields of the session that the pressure handling reads and writes.
  \<open>microphoneSelected\<close> stands for a non-empty \<open>microphoneSelect.value\<close>;
  \<open>recordingsStarted\<close> counts the calls of \<open>startRecording\<close> that got as far as the audio
  engine; \<open>activeSampleSources\<close> keeps the keys of the map of that name;
  \<open>gridCellDebounceTimers\<close> holds the timer handles and \<open>timeouts\<close> is the host's table of
  pending timers, by handle (\<open>timeoutsCreated\<close> numbers the handles);
  \<open>transitions\<close> logs the calls \<open>handleGridCellPressureChange(gridIndex, on, pressure)\<close>,
  which start and stop the voices.
\<close>

record app =
  audioEngine :: audio_engine
  currentMode :: mode
  isPerformanceRecording :: bool
  recordingState :: recording_state
  isRecordingOnCooldown :: bool
  recordingReady :: bool
  pressureThreshold :: int
  lastPressureState :: bool
  lastTotalPressure :: int
  microphoneSelected :: bool
  recordingsStarted :: nat
  activeSampleSources :: "int list"
  gridCellPressureState :: "bool list"
  gridCellDebounceTimers :: "nat option list"
  pressureDebounceMs :: nat
  timeouts :: "(nat \<times> timeout) list"
  timeoutsCreated :: nat
  transitions :: "(nat \<times> bool \<times> int option) list"

text \<open>The session as the constructor leaves it, with the effects loaded and a microphone selected.\<close>

definition app_init :: app where
  "app_init =
     \<lparr>audioEngine = engine_loaded, currentMode = RECORD, isPerformanceRecording = False,
      recordingState = idle, isRecordingOnCooldown = False, recordingReady = False,
      pressureThreshold = 25, lastPressureState = False, lastTotalPressure = 0,
      microphoneSelected = True, recordingsStarted = 0, activeSampleSources = [],
      gridCellPressureState = replicate 9 False, gridCellDebounceTimers = replicate 9 None,
      pressureDebounceMs = 50, timeouts = [], timeoutsCreated = 1, transitions = []\<rparr>"

definition updateSensitivity :: "app \<Rightarrow> int \<Rightarrow> app" where
  "updateSensitivity a v = a\<lparr>pressureThreshold := v\<rparr>"

subsection \<open>Recording trigger\<close>

text \<open>
  \<open>startRecording\<close> and \<open>stopRecording\<close> up to their first \<open>await\<close>: the state changes that
  the caller sees when the call returns. The timer that ends the cooldown is the step
  \<open>cooldownElapsed\<close>.
\<close>

definition startRecording :: "app \<Rightarrow> app" where
  "startRecording a =
     (if recordingState a \<noteq> idle \<or> isRecordingOnCooldown a then a
      else if \<not> microphoneSelected a then a
      else a\<lparr>recordingState := recording, recordingsStarted := Suc (recordingsStarted a)\<rparr>)"

definition stopRecording :: "app \<Rightarrow> app" where
  "stopRecording a =
     (if recordingState a \<noteq> recording then a
      else a\<lparr>recordingState := idle, isRecordingOnCooldown := True, recordingReady := False\<rparr>)"

definition cooldownElapsed :: "app \<Rightarrow> app" where
  "cooldownElapsed a = a\<lparr>isRecordingOnCooldown := False\<rparr>"

definition handleRecordingPressure :: "app \<Rightarrow> int \<Rightarrow> app" where
  "handleRecordingPressure a totalPressure =
     (let pressed = (totalPressure > pressureThreshold a);
          a1 = (if \<bar>totalPressure - lastTotalPressure a\<bar> > 10
                then a\<lparr>lastTotalPressure := totalPressure\<rparr> else a);
          a2 = (if \<not> recordingReady a1 \<and> \<not> pressed
                then a1\<lparr>recordingReady := True\<rparr> else a1);
          a3 = (if pressed \<and> \<not> lastPressureState a2 \<and> recordingReady a2
                then (if recordingState a2 = idle \<and> \<not> isRecordingOnCooldown a2
                      then startRecording a2
                      else if recordingState a2 = recording then stopRecording a2
                      else a2)
                else a2)
      in a3\<lparr>lastPressureState := pressed\<rparr>)"

definition handleManualRecordToggle :: "app \<Rightarrow> app" where
  "handleManualRecordToggle a =
     (if isRecordingOnCooldown a then a
      else if recordingState a = idle then startRecording a
      else if recordingState a = recording then stopRecording a
      else a)"

text \<open>
  \<open>clearAllActiveEffectsAndSamples\<close> stops every tracked voice, resets the committed region
  states and clears every debounce timer; \<open>switchMode\<close> resets the recording state machine
  around it.
\<close>

definition clearTimeout :: "app \<Rightarrow> nat option \<Rightarrow> app" where
  "clearTimeout a timer =
     (case timer of
        None \<Rightarrow> a
      | Some h \<Rightarrow> a\<lparr>timeouts := AList.delete h (timeouts a)\<rparr>)"

definition clearAllActiveEffectsAndSamples :: "app \<Rightarrow> app" where
  "clearAllActiveEffectsAndSamples a =
     (let a1 = a\<lparr>audioEngine := foldl stopLoopedSampleWithEffect (audioEngine a)
                                    (activeSampleSources a),
                  activeSampleSources := [],
                  gridCellPressureState := map (\<lambda>_. False) (gridCellPressureState a)\<rparr>;
          a2 = foldl clearTimeout a1 (gridCellDebounceTimers a1)
      in a2\<lparr>gridCellDebounceTimers := map (\<lambda>_. None) (gridCellDebounceTimers a2)\<rparr>)"

definition switchMode :: "app \<Rightarrow> mode \<Rightarrow> app" where
  "switchMode a m =
     (let a1 = a\<lparr>currentMode := m\<rparr>;
          a2 = (if recordingState a1 = recording then stopRecording a1 else a1);
          a3 = a2\<lparr>recordingState := idle, isRecordingOnCooldown := False,
                  recordingReady := True\<rparr>;
          a4 = clearAllActiveEffectsAndSamples a3
      in a4\<lparr>lastPressureState := False\<rparr>)"

subsection \<open>Region aggregation and debounce\<close>

record region =
  minX :: nat
  maxX :: nat
  minY :: nat
  maxY :: nat

definition gridRegions :: "region list" where
  "gridRegions =
     [\<lparr>minX = 0, maxX = 2, minY = 0, maxY = 2\<rparr>, \<lparr>minX = 3, maxX = 5, minY = 0, maxY = 2\<rparr>,
      \<lparr>minX = 6, maxX = 9, minY = 0, maxY = 2\<rparr>, \<lparr>minX = 0, maxX = 2, minY = 3, maxY = 5\<rparr>,
      \<lparr>minX = 3, maxX = 5, minY = 3, maxY = 5\<rparr>, \<lparr>minX = 6, maxX = 9, minY = 3, maxY = 5\<rparr>,
      \<lparr>minX = 0, maxX = 2, minY = 6, maxY = 9\<rparr>, \<lparr>minX = 3, maxX = 5, minY = 6, maxY = 9\<rparr>,
      \<lparr>minX = 6, maxX = 9, minY = 6, maxY = 9\<rparr>]"

text \<open>\<open>pressureMatrix[i]\<close> (\<open>undefined\<close> outside the frame) and \<open>Math.max\<close> (NaN absorbs).\<close>

definition element :: "int list \<Rightarrow> nat \<Rightarrow> int option" where
  "element pressureMatrix i = (if i < length pressureMatrix then Some (pressureMatrix ! i) else None)"

definition math_max :: "int option \<Rightarrow> int option \<Rightarrow> int option" where
  "math_max a b =
     (case a of
        None \<Rightarrow> None
      | Some x \<Rightarrow> (case b of None \<Rightarrow> None | Some y \<Rightarrow> Some (max x y)))"

definition regionMax :: "int list \<Rightarrow> region \<Rightarrow> int option" where
  "regionMax pressureMatrix r =
     foldl math_max (Some 0)
       (concat (map (\<lambda>y. map (\<lambda>x. element pressureMatrix (y * 10 + x)) [minX r ..< Suc (maxX r)])
                    [minY r ..< Suc (maxY r)]))"

text \<open>\<open>maxPressureInRegion > this.pressureThreshold\<close>; a comparison with NaN is false.\<close>

definition above :: "int option \<Rightarrow> int \<Rightarrow> bool" where
  "above pressure threshold = (case pressure of None \<Rightarrow> False | Some p \<Rightarrow> p > threshold)"

text \<open>
  The body of \<open>gridRegions.forEach\<close> for one region, at host time \<open>now\<close>: compute the
  maximum, clear the timer stored for the region, and store a new timer whose closure holds
  the values just computed.
\<close>

definition checkRegion :: "nat \<Rightarrow> int list \<Rightarrow> app \<Rightarrow> nat \<Rightarrow> app" where
  "checkRegion now pressureMatrix a gi =
     (let maxP = regionMax pressureMatrix (gridRegions ! gi);
          pressed = above maxP (pressureThreshold a);
          a1 = clearTimeout a (gridCellDebounceTimers a ! gi);
          h = timeoutsCreated a1
      in a1\<lparr>timeouts := timeouts a1 @
                 [(h, \<lparr>gridIndex = gi, isPressed = pressed, maxPressureInRegion = maxP,
                       due = now + pressureDebounceMs a1\<rparr>)],
             timeoutsCreated := Suc h,
             gridCellDebounceTimers := (gridCellDebounceTimers a1)[gi := Some h]\<rparr>)"

definition checkGridCellsForPressure :: "app \<Rightarrow> nat \<Rightarrow> int list \<Rightarrow> app" where
  "checkGridCellsForPressure a now pressureMatrix =
     foldl (checkRegion now pressureMatrix) a [0 ..< length gridRegions]"

text \<open>The closure of a debounce timer, run when the timer fires.\<close>

definition debounceCallback :: "app \<Rightarrow> timeout \<Rightarrow> app" where
  "debounceCallback a t =
     (let currentIsPressed = gridCellPressureState a ! gridIndex t
      in if isPressed t \<and> \<not> currentIsPressed then
           a\<lparr>gridCellPressureState := (gridCellPressureState a)[gridIndex t := True],
             transitions := transitions a @ [(gridIndex t, True, maxPressureInRegion t)]\<rparr>
         else if \<not> isPressed t \<and> currentIsPressed then
           a\<lparr>gridCellPressureState := (gridCellPressureState a)[gridIndex t := False],
             transitions := transitions a @ [(gridIndex t, False, maxPressureInRegion t)]\<rparr>
         else a)"

text \<open>
  The host fires the timer with handle \<open>h\<close> at time \<open>now\<close>: nothing happens unless the timer
  is pending and due; otherwise it leaves the table and its closure runs.
\<close>

definition fireTimeout :: "app \<Rightarrow> nat \<Rightarrow> nat \<Rightarrow> app" where
  "fireTimeout a now h =
     (case map_of (timeouts a) h of
        None \<Rightarrow> a
      | Some t \<Rightarrow> if due t \<le> now
                  then debounceCallback (a\<lparr>timeouts := AList.delete h (timeouts a)\<rparr>) t
                  else a)"

datatype app_event = Frame nat "int list" | Timeout nat nat | Sensitivity int

fun app_step :: "app \<Rightarrow> app_event \<Rightarrow> app" where
  "app_step a (Frame now pressureMatrix) = checkGridCellsForPressure a now pressureMatrix"
| "app_step a (Timeout now h) = fireTimeout a now h"
| "app_step a (Sensitivity v) = updateSensitivity a v"

definition app_run :: "app \<Rightarrow> app_event list \<Rightarrow> app" where
  "app_run a evs = foldl app_step a evs"

text \<open>
  A stream is rapid after a frame at time \<open>latest\<close> when every later event happens less
  than the debounce window \<open>d\<close> after the latest frame before it.
\<close>

fun rapid :: "nat \<Rightarrow> nat \<Rightarrow> app_event list \<Rightarrow> bool" where
  "rapid d latest [] = True"
| "rapid d latest (Frame now pressureMatrix # evs) =
     (latest \<le> now \<and> now < latest + d \<and> rapid d now evs)"
| "rapid d latest (Timeout now h # evs) = (now < latest + d \<and> rapid d latest evs)"
| "rapid d latest (Sensitivity v # evs) = rapid d latest evs"

text \<open>
  Well-formed timers: both arrays have nine entries, handles are numbers already handed
  out, every pending timer is the one stored for its region and no two regions store the
  handle of a pending timer. (A timer that has fired leaves its handle behind in the
  array.)
\<close>

definition timers_ok :: "app \<Rightarrow> bool" where
  "timers_ok a =
     (length (gridCellPressureState a) = 9 \<and> length (gridCellDebounceTimers a) = 9
      \<and> distinct (map fst (timeouts a))
      \<and> (\<forall>j < 9. \<forall>h. gridCellDebounceTimers a ! j = Some h \<longrightarrow> h < timeoutsCreated a)
      \<and> (\<forall>(h, t) \<in> set (timeouts a).
            h < timeoutsCreated a \<and> gridIndex t < 9
            \<and> (\<forall>j < 9. gridCellDebounceTimers a ! j = Some h \<longleftrightarrow> j = gridIndex t)))"

text \<open>
  The timer that a frame \<open>pressureMatrix\<close>, processed at time \<open>now\<close> in state \<open>a\<close>, schedules
  for region \<open>j\<close>.
\<close>

definition scheduled :: "app \<Rightarrow> nat \<Rightarrow> int list \<Rightarrow> nat \<Rightarrow> timeout" where
  "scheduled a now pressureMatrix j =
     \<lparr>gridIndex = j,
      isPressed = above (regionMax pressureMatrix (gridRegions ! j)) (pressureThreshold a),
      maxPressureInRegion = regionMax pressureMatrix (gridRegions ! j),
      due = now + pressureDebounceMs a\<rparr>"

text \<open>The state after the first \<open>k\<close> regions of a frame have been handled.\<close>

definition partly :: "app \<Rightarrow> nat \<Rightarrow> int list \<Rightarrow> nat \<Rightarrow> app" where
  "partly a now pressureMatrix k =
     a\<lparr>timeouts := filter (\<lambda>(h, t). k \<le> gridIndex t) (timeouts a)
                     @ map (\<lambda>j. (timeoutsCreated a + j, scheduled a now pressureMatrix j)) [0 ..< k],
       timeoutsCreated := timeoutsCreated a + k,
       gridCellDebounceTimers := map (\<lambda>j. Some (timeoutsCreated a + j)) [0 ..< k]
                                   @ drop k (gridCellDebounceTimers a)\<rparr>"

subsection \<open>Performance recording\<close>

definition app_startPerformanceRecording :: "app \<Rightarrow> bool \<Rightarrow> app" where
  "app_startPerformanceRecording a supported =
     (case startPerformanceRecording (audioEngine a) supported of
        None \<Rightarrow> a\<lparr>isPerformanceRecording := True\<rparr>
      | Some e \<Rightarrow> a\<lparr>audioEngine := e, isPerformanceRecording := True\<rparr>)"

definition app_stopPerformanceRecording :: "app \<Rightarrow> app" where
  "app_stopPerformanceRecording a =
     (if \<not> isPerformanceRecording a then a
      else a\<lparr>audioEngine := stopPerformanceRecording (audioEngine a),
             isPerformanceRecording := False\<rparr>)"

definition togglePerformanceRecording :: "app \<Rightarrow> bool \<Rightarrow> app" where
  "togglePerformanceRecording a supported =
     (if isPerformanceRecording a then app_stopPerformanceRecording a
      else app_startPerformanceRecording a supported)"

section \<open>Concrete inputs\<close>

text \<open>A line of 100 tokens: too large, negative, not a number, hexadecimal, then small values.\<close>

definition line100 :: string where
  "line100 = ''300,-5,abc,0x1F,7'' @ concat (replicate 95 '',0'')"

definition handler0 :: serial_handler where
  "handler0 = \<lparr>readBuffer = [], onDataReceived = True, delivered = [], malformed = 0\<rparr>"


text \<open>
  Region 0 plays through \<open>ringmod\<close>; then a start for region 1 fails to decode. Each of
  the two calls runs to its end with nothing else in between.
\<close>

definition ringmod_voice :: audio_engine where
  "ringmod_voice =
     snd (startLoopedSampleWithEffect_resume (startLoopedSampleWithEffect_enter engine_loaded 0)
            0 (Decodable 2) (Some ''ringmod'') 1)"

definition failed_start :: "bool \<times> audio_engine" where
  "failed_start =
     startLoopedSampleWithEffect_resume (startLoopedSampleWithEffect_enter ringmod_voice 1)
       1 Undecodable (Some ''ringmod'') 1"

text \<open>The engine with one master capture in progress.\<close>

definition capturing :: audio_engine where
  "capturing = engine_loaded\<lparr>masterTaps := [0], performanceRecorder := Some 0,
                               recordersCreated := 1\<rparr>"

text \<open>
  Three voices are started on regions 0, 1 and 2, all through \<open>ringmod\<close>, each call running
  to its end before the next; then a start for region 3 with \<open>ringmod\<close> fails to decode;
  then regions 0 and 1 are stopped.
\<close>

definition three_voices :: "engine_event list" where
  "three_voices =
     [Start 0 (Decodable 2) (Some ''ringmod'') 1, Resume 0,
      Start 1 (Decodable 2) (Some ''ringmod'') 1, Resume 1,
      Start 2 (Decodable 2) (Some ''ringmod'') 1, Resume 2]"

definition three_voices_playing :: engine_calls where
  "three_voices_playing = engine_run (calls_init engine_loaded) three_voices"

definition fourth_fails :: engine_calls where
  "fourth_fails =
     engine_run three_voices_playing [Start 3 Undecodable (Some ''ringmod'') 1, Resume 3]"

definition two_stopped :: engine_calls where
  "two_stopped = engine_run fourth_fails [Stop 0, Stop 1]"

text \<open>
  Region 0 is started twice before either blob is decoded (as a cell pressed, released and
  pressed again within one decode does); both calls then resume, and region 0 is stopped.
\<close>

definition started_twice :: engine_calls where
  "started_twice =
     engine_run (calls_init engine_loaded)
       [Start 0 (Decodable 2) (Some ''ringmod'') 1, Start 0 (Decodable 2) (Some ''ringmod'') 1,
        Resume 0, Resume 1]"

definition then_stopped :: engine_calls where
  "then_stopped = engine_run started_twice [Stop 0]"

text \<open>
  Two frames: all sensors at 0, and sensor (0,0), which lies in region 0, at 30. The stream
  \<open>flicker\<close> follows a frame at time 0: frames 10 to 30 ms apart whose region 0 goes from
  above the threshold to below and back, and between them the pending timer of region 0
  (handles 1, 10 and 19), which the host tries to fire before it is due.
\<close>

definition frame0 :: "int list" where
  "frame0 = replicate 100 0"

definition frame30 :: "int list" where
  "frame30 = list_update (replicate 100 0) 0 30"

definition flicker :: "app_event list" where
  "flicker = [Timeout 9 1, Frame 10 frame0, Timeout 49 10, Frame 30 frame30, Timeout 59 19,
              Frame 60 frame0]"

section \<open>Properties\<close>

subsection \<open>Serial frame decoder\<close>

lemma clamped_range: "0 \<le> clamped tok \<and> clamped tok \<le> 255"
  by (simp add: clamped_def Let_def)

lemma clamped_NaN: "parseInt (trim tok) = None \<Longrightarrow> clamped tok = 0"
  by (simp add: clamped_def)

lemma clamped_number:
  "parseInt (trim tok) = Some n \<Longrightarrow> clamped tok = (if n < 0 then 0 else if 255 < n then 255 else n)"
  by (simp add: clamped_def)

lemma handle_line_observer: "onDataReceived (handle_line h l) = onDataReceived h"
  by (simp add: handle_line_def parseSerialData_def Let_def)

lemma handle_line_delivered:
  "onDataReceived h \<Longrightarrow> delivered (handle_line h l) = delivered h @ frames_of [l]"
  by (simp add: handle_line_def parseSerialData_def frames_of_def Let_def)

lemma frames_of_Cons: "frames_of (l # ls) = frames_of [l] @ frames_of ls"
  by (simp add: frames_of_def)

lemma foldl_handle_line_delivered:
  "onDataReceived h \<Longrightarrow> delivered (foldl handle_line h ls) = delivered h @ frames_of ls"
proof (induction ls arbitrary: h)
  case Nil
  show ?case by (simp add: frames_of_def)
next
  case (Cons l ls)
  have "onDataReceived (handle_line h l)"
    using Cons.prems by (simp add: handle_line_observer)
  then have "delivered (foldl handle_line (handle_line h l) ls)
      = delivered (handle_line h l) @ frames_of ls"
    by (rule Cons.IH)
  then show ?case
    using Cons.prems frames_of_Cons [of l ls] by (simp add: handle_line_delivered)
qed

lemma line100_tokens:
  "js_split CHR '','' line100 = [''300'', ''-5'', ''abc'', ''0x1F'', ''7''] @ replicate 95 ''0''"
  by code_simp

lemma line100_frame:
  "map clamped (js_split CHR '','' line100) = [255, 0, 0, 31, 7] @ replicate 95 0"
  by code_simp

lemma abc_NaN: "parseInt (trim ''abc'') = None"
  by code_simp

text \<open>
  C2. A line that splits at commas into exactly 100 tokens hands exactly one frame to the
  registered observer; the frame has 100 values, each in [0,255]: a token that
  \<open>parseInt\<close> cannot read counts as 0, a number below 0 becomes 0 and one above 255 becomes
  255. A line with any other number of tokens hands over no frame and writes one
  "Malformed line" diagnostic. Decoding goes on after such a line: a chunk delivers the
  frames of all its complete lines of 100 tokens, in order.
\<close>

theorem parseSerialData_frames:
  "(length (js_split CHR '','' line) = 100 \<and> onDataReceived h \<longrightarrow>
      delivered (parseSerialData h line) = delivered h @ [map clamped (js_split CHR '','' line)]
      \<and> length (map clamped (js_split CHR '','' line)) = 100
      \<and> (\<forall>v \<in> set (map clamped (js_split CHR '','' line)). 0 \<le> v \<and> v \<le> 255)
      \<and> malformed (parseSerialData h line) = malformed h)
   \<and> (length (js_split CHR '','' line) \<noteq> 100 \<longrightarrow>
      delivered (parseSerialData h line) = delivered h
      \<and> malformed (parseSerialData h line) = Suc (malformed h))
   \<and> (parseInt (trim tok) = None \<longrightarrow> clamped tok = 0)
   \<and> (\<forall>n. parseInt (trim tok) = Some n \<longrightarrow>
         clamped tok = (if n < 0 then 0 else if 255 < n then 255 else n))
   \<and> (onDataReceived h \<longrightarrow>
         delivered (processIncomingData h data)
           = delivered h @ frames_of (butlast (js_split CHR 0x0A (readBuffer h @ data))))"
proof (intro conjI impI allI)
  assume a: "length (js_split CHR '','' line) = 100 \<and> onDataReceived h"
  then show "delivered (parseSerialData h line) = delivered h @ [map clamped (js_split CHR '','' line)]"
    by (simp add: parseSerialData_def Let_def)
  from a show "length (map clamped (js_split CHR '','' line)) = 100" by simp
  show "\<forall>v \<in> set (map clamped (js_split CHR '','' line)). 0 \<le> v \<and> v \<le> 255"
    using clamped_range by auto
  from a show "malformed (parseSerialData h line) = malformed h"
    by (simp add: parseSerialData_def Let_def)
next
  assume "length (js_split CHR '','' line) \<noteq> 100"
  then show "delivered (parseSerialData h line) = delivered h"
    and "malformed (parseSerialData h line) = Suc (malformed h)"
    by (simp_all add: parseSerialData_def Let_def)
next
  assume "parseInt (trim tok) = None"
  then show "clamped tok = 0" by (rule clamped_NaN)
next
  fix n assume "parseInt (trim tok) = Some n"
  then show "clamped tok = (if n < 0 then 0 else if 255 < n then 255 else n)"
    by (rule clamped_number)
next
  assume "onDataReceived h"
  then show "delivered (processIncomingData h data)
           = delivered h @ frames_of (butlast (js_split CHR 0x0A (readBuffer h @ data)))"
    by (simp add: processIncomingData_def Let_def foldl_handle_line_delivered)
qed

theorem parseSerialData_frames_witness:
  "delivered (parseSerialData handler0 line100) = [[255, 0, 0, 31, 7] @ replicate 95 0]
   \<and> malformed (parseSerialData handler0 line100) = 0
   \<and> delivered (parseSerialData handler0 ''1,2,3'') = []
   \<and> malformed (parseSerialData handler0 ''1,2,3'') = 1
   \<and> clamped ''abc'' = 0
   \<and> delivered (processIncomingData handler0 (''1,2,3'' @ [CHR 0x0A] @ line100 @ [CHR 0x0A]))
       = [[255, 0, 0, 31, 7] @ replicate 95 0]"
proof -
  have len: "length (js_split CHR '','' line100) = 100"
    by (simp add: line100_tokens)
  have obs: "onDataReceived handler0" by (simp add: handler0_def)
  have d0: "delivered handler0 = []" "malformed handler0 = 0" by (simp_all add: handler0_def)
  have bad: "length (js_split CHR '','' ''1,2,3'') \<noteq> 100" by simp
  have stream: "frames_of (butlast (js_split CHR 0x0A
      (readBuffer handler0 @ ''1,2,3'' @ [CHR 0x0A] @ line100 @ [CHR 0x0A])))
      = [[255, 0, 0, 31, 7] @ replicate 95 0]"
    by code_simp
  show ?thesis
    using parseSerialData_frames [of line100 handler0 "''abc''"
        "''1,2,3'' @ [CHR 0x0A] @ line100 @ [CHR 0x0A]"]
      parseSerialData_frames [of "''1,2,3''" handler0 "''abc''" "[]"]
      len obs d0 bad stream abc_NaN line100_frame
    by simp
qed

subsection \<open>Effect activation and parameters\<close>

lemma effect_of_own: "webAudioEffects e name = Some eff \<Longrightarrow> effect_of e name = Own eff"
  by (simp add: effect_of_def)

lemma effect_of_Own_iff: "(effect_of e name = Own eff) = (webAudioEffects e name = Some eff)"
  by (simp add: effect_of_def split: option.splits)

lemma effect_of_playing [simp]: "effect_of (e\<lparr>playing := p\<rparr>) name = effect_of e name"
  by (simp add: effect_of_def)



lemma effect_of_not_own:
  "webAudioEffects e name = None \<Longrightarrow> effect_of e name = Undefined \<or> effect_of e name = Inherited"
  by (simp add: effect_of_def)

lemma applyEffect_not_own: "webAudioEffects e name = None \<Longrightarrow> snd (applyEffect e name isActive) = e"
  by (auto simp add: applyEffect_def effect_of_def)

lemma loaded_fields:
  "bus engine_loaded = {}" "activeLoopedSources engine_loaded = []" "playing engine_loaded = []"
  by (simp_all add: engine_loaded_def)

lemma loaded_ringmod:
  "webAudioEffects engine_loaded ''ringmod''
     = Some \<lparr>active = False, nodes = createEffectNodes ''ringmod''\<rparr>"
  by (simp add: engine_loaded_def effect_names_def)


lemma loaded_reverb: "webAudioEffects engine_loaded ''reverb'' = None"
  by (simp add: engine_loaded_def effect_names_def)


lemma loaded_constructor: "webAudioEffects engine_loaded ''constructor'' = None"
  by (simp add: engine_loaded_def effect_names_def)




lemma name_cases:
  obtains "name = ''pitchshifter''" | "name = ''ringmod''" | "name = ''freezer''"
  | "name = ''vibrato''" | "name = ''filterdelay''" | "name = ''octaver''"
  | "name \<notin> set effect_names"
  by (auto simp: effect_names_def)

lemma set_nodes_unknown:
  assumes "paramId \<notin> set (handled name)"
  shows "set_nodes name paramId v ns = ns"
proof (cases name rule: name_cases)
  case 1 with assms show ?thesis by (simp add: handled_def set_nodes_def assign_def)
next
  case 2 with assms show ?thesis by (simp add: handled_def set_nodes_def assign_def)
next
  case 3 with assms show ?thesis by (simp add: handled_def set_nodes_def assign_def)
next
  case 4 with assms show ?thesis by (simp add: handled_def set_nodes_def assign_def)
next
  case 5 with assms show ?thesis by (simp add: handled_def set_nodes_def assign_def)
next
  case 6 with assms show ?thesis by (simp add: handled_def set_nodes_def assign_def)
next
  case 7 then show ?thesis by (simp add: effect_names_def set_nodes_def)
qed

lemma get_unknown:
  assumes "paramId \<notin> set (handled name)"
  shows "getEffectParameter e name paramId = 0"
proof (cases name rule: name_cases)
  case 1 with assms show ?thesis
    by (simp add: handled_def getEffectParameter_def split: property.splits)
next
  case 2 with assms show ?thesis
    by (simp add: handled_def getEffectParameter_def split: property.splits)
next
  case 3 with assms show ?thesis
    by (simp add: handled_def getEffectParameter_def split: property.splits)
next
  case 4 with assms show ?thesis
    by (simp add: handled_def getEffectParameter_def split: property.splits)
next
  case 5 with assms show ?thesis
    by (simp add: handled_def getEffectParameter_def split: property.splits)
next
  case 6 with assms show ?thesis
    by (simp add: handled_def getEffectParameter_def split: property.splits)
next
  case 7 then show ?thesis
    by (simp add: effect_names_def getEffectParameter_def split: property.splits)
qed

lemma set_get_nodes:
  assumes "paramId \<in> set (handled name)"
    and "dom ns = dom (createEffectNodes name)"
  shows "getEffectParameter (e\<lparr>webAudioEffects := (webAudioEffects e)(name \<mapsto>
            eff\<lparr>nodes := set_nodes name paramId v ns\<rparr>)\<rparr>) name paramId = v"
proof -
  have d: "\<And>k. (ns k = None) = (createEffectNodes name k = None)"
    using assms(2) by (metis domIff)
  show ?thesis
  proof (cases name rule: name_cases)
    case 1 with assms(1) show ?thesis
      by (auto simp add: handled_def getEffectParameter_def effect_of_def set_nodes_def
          assign_def node_or_def d createEffectNodes_def)
  next
    case 2 with assms(1) show ?thesis
      by (auto simp add: handled_def getEffectParameter_def effect_of_def set_nodes_def
          assign_def node_or_def d createEffectNodes_def)
  next
    case 3 with assms(1) show ?thesis
      by (auto simp add: handled_def getEffectParameter_def effect_of_def set_nodes_def
          assign_def node_or_def d createEffectNodes_def)
  next
    case 4 with assms(1) show ?thesis
      by (auto simp add: handled_def getEffectParameter_def effect_of_def set_nodes_def
          assign_def node_or_def d createEffectNodes_def)
  next
    case 5 with assms(1) show ?thesis
      by (auto simp add: handled_def getEffectParameter_def effect_of_def set_nodes_def
          assign_def node_or_def d createEffectNodes_def)
  next
    case 6 with assms(1) show ?thesis
      by (auto simp add: handled_def getEffectParameter_def effect_of_def set_nodes_def
          assign_def node_or_def d createEffectNodes_def)
  next
    case 7 with assms(1) show ?thesis
      by (simp add: effect_names_def handled_def)
  qed
qed

lemma set_unknown_effect:
  "webAudioEffects e name = None \<Longrightarrow>
     setEffectParameter e name paramId v = (False, e) \<and> getEffectParameter e name paramId = 0"
  by (simp add: setEffectParameter_def getEffectParameter_def effect_of_def)

lemma set_unknown_param:
  assumes "webAudioEffects e name \<noteq> None" and "paramId \<notin> set (handled name)"
  shows "setEffectParameter e name paramId v = (True, e)"
proof -
  from assms(1) obtain eff where eff: "webAudioEffects e name = Some eff" by auto
  then have "(webAudioEffects e)(name \<mapsto> eff) = webAudioEffects e"
    by (simp add: map_upd_triv)
  with eff show ?thesis
    by (simp add: setEffectParameter_def effect_of_own set_nodes_unknown [OF assms(2)])
qed

text \<open>
  C9, amended. For a name that names no effect (the lookup yields \<open>undefined\<close>, or a value
  inherited from the prototype, which has no \<open>nodes\<close>) the setter returns \<open>false\<close> and
  changes nothing, and the getter returns 0. For a known effect and a parameter id that its
  \<open>switch\<close> case does not test for, the setter changes no node but returns \<open>true\<close>, and
  the getter returns 0. For a known effect with its nodes and a parameter id of its case,
  the setter returns \<open>true\<close> and stores the value, whatever it is: the getter then returns
  it. There is no range check. Neither function throws (both are total here; the source
  wraps both bodies in \<open>try\<close>/\<open>catch\<close>).
\<close>

theorem effect_parameter_access:
  "(webAudioEffects e name = None \<longrightarrow>
      setEffectParameter e name paramId v = (False, e) \<and> getEffectParameter e name paramId = 0)
   \<and> (webAudioEffects e name \<noteq> None \<and> paramId \<notin> set (handled name) \<longrightarrow>
      setEffectParameter e name paramId v = (True, e) \<and> getEffectParameter e name paramId = 0)
   \<and> (webAudioEffects e name = Some eff \<and> dom (nodes eff) = dom (createEffectNodes name)
       \<and> paramId \<in> set (handled name) \<longrightarrow>
      fst (setEffectParameter e name paramId v) = True
      \<and> getEffectParameter (snd (setEffectParameter e name paramId v)) name paramId = v)"
proof (intro conjI impI)
  assume "webAudioEffects e name = None"
  then show "setEffectParameter e name paramId v = (False, e)"
    and "getEffectParameter e name paramId = 0"
    by (simp_all add: set_unknown_effect)
next
  assume a: "webAudioEffects e name \<noteq> None \<and> paramId \<notin> set (handled name)"
  then show "setEffectParameter e name paramId v = (True, e)"
    by (simp add: set_unknown_param)
  from a show "getEffectParameter e name paramId = 0"
    by (simp add: get_unknown)
next
  assume a: "webAudioEffects e name = Some eff \<and> dom (nodes eff) = dom (createEffectNodes name)
       \<and> paramId \<in> set (handled name)"
  then show "fst (setEffectParameter e name paramId v) = True"
    by (simp add: setEffectParameter_def effect_of_own)
  from a show "getEffectParameter (snd (setEffectParameter e name paramId v)) name paramId = v"
    by (simp add: setEffectParameter_def effect_of_own set_get_nodes)
qed

theorem effect_parameter_access_witness:
  "setEffectParameter engine_loaded ''reverb'' ''output'' 1 = (False, engine_loaded)
   \<and> getEffectParameter engine_loaded ''reverb'' ''output'' = 0
   \<and> setEffectParameter engine_loaded ''ringmod'' ''cutoff'' 1 = (True, engine_loaded)
   \<and> getEffectParameter engine_loaded ''ringmod'' ''cutoff'' = 0
   \<and> getEffectParameter (snd (setEffectParameter engine_loaded ''ringmod'' ''frequency'' 99999))
        ''ringmod'' ''frequency'' = 99999"
proof -
  have h: "''cutoff'' \<notin> set (handled ''ringmod'')" "''frequency'' \<in> set (handled ''ringmod'')"
    by (simp_all add: handled_def)
  show ?thesis
    using effect_parameter_access [of engine_loaded "''reverb''" "''output''" 1
        "\<lparr>active = False, nodes = createEffectNodes ''ringmod''\<rparr>"]
      effect_parameter_access [of engine_loaded "''ringmod''" "''cutoff''" 1
        "\<lparr>active = False, nodes = createEffectNodes ''ringmod''\<rparr>"]
      effect_parameter_access [of engine_loaded "''ringmod''" "''frequency''" 99999
        "\<lparr>active = False, nodes = createEffectNodes ''ringmod''\<rparr>"]
      loaded_ringmod loaded_reverb h
    by simp
qed

text \<open>
  C9, as stated, fails: the setter returns \<open>true\<close> for a parameter id that \<open>ringmod\<close> does
  not have, and it returns \<open>true\<close> and overwrites the oscillator frequency (30) with 99999
  although the slider table gives the range 1 to 500.
\<close>

theorem setEffectParameter_accepts_anything:
  "''cutoff'' \<notin> set (handled ''ringmod'')
   \<and> fst (setEffectParameter engine_loaded ''ringmod'' ''cutoff'' 1) = True
   \<and> (''ringmod'', ''frequency'', 1, 500) \<in> set effectsConfig
   \<and> getEffectParameter engine_loaded ''ringmod'' ''frequency'' = 30
   \<and> fst (setEffectParameter engine_loaded ''ringmod'' ''frequency'' 99999) = True
   \<and> getEffectParameter (snd (setEffectParameter engine_loaded ''ringmod'' ''frequency'' 99999))
        ''ringmod'' ''frequency'' = 99999"
  by (simp add: handled_def effectsConfig_def setEffectParameter_def getEffectParameter_def
      effect_of_def loaded_ringmod set_nodes_def assign_def createEffectNodes_def node_or_def)

subsection \<open>Looped voices and reference counting\<close>

lemma applyEffect_sources [simp]:
  "activeLoopedSources (snd (applyEffect e n b)) = activeLoopedSources e"
  by (simp add: applyEffect_def split: property.splits)

lemma applyEffect_playing [simp]: "playing (snd (applyEffect e n b)) = playing e"
  by (simp add: applyEffect_def split: property.splits)

lemma applyEffect_users [simp]: "users (snd (applyEffect e n b)) m = users e m"
  by (simp add: users_def)

lemma applyEffect_other:
  "m \<noteq> n \<Longrightarrow> webAudioEffects (snd (applyEffect e n b)) m = webAudioEffects e m"
  by (simp add: applyEffect_def split: property.splits)

lemma applyEffect_bus_other:
  "m \<noteq> n \<Longrightarrow> (m \<in> bus (snd (applyEffect e n b))) = (m \<in> bus e)"
  by (auto simp add: applyEffect_def split: property.splits)

lemma applyEffect_same:
  assumes "webAudioEffects e n = Some eff"
    and "nodes eff ''input'' \<noteq> None" and "nodes eff ''output'' \<noteq> None"
    and "n \<in> bus e \<longleftrightarrow> active eff"
  shows "fst (applyEffect e n b)
     \<and> webAudioEffects (snd (applyEffect e n b)) n = Some (eff\<lparr>active := b\<rparr>)
     \<and> (n \<in> bus (snd (applyEffect e n b)) \<longleftrightarrow> b)"
  using assms by (cases b) (auto simp add: applyEffect_def effect_of_own)

lemma applyEffect_effects_ok: "effects_ok e \<Longrightarrow> effects_ok (snd (applyEffect e n b))"
  by (auto simp add: effects_ok_def applyEffect_def effect_of_Own_iff
      split: property.splits if_splits)

lemma filter_delete_count:
  "distinct (map fst srcs) \<Longrightarrow> map_of srcs g = Some v \<Longrightarrow>
     length (filter P (map snd (AList.delete g srcs))) + (if P v then 1 else 0)
       = length (filter P (map snd srcs))"
proof (induction srcs)
  case Nil
  then show ?case by simp
next
  case (Cons p srcs)
  obtain k w where p: "p = (k, w)" by (cases p)
  show ?case
  proof (cases "k = g")
    case True
    with Cons.prems p have "w = v" and "g \<notin> fst ` set srcs" by auto
    then show ?thesis using p True by (simp add: AList.delete_id)
  next
    case False
    with Cons p show ?thesis by auto
  qed
qed

lemma update_fresh: "g \<notin> fst ` set srcs \<Longrightarrow> AList.update g v srcs = srcs @ [(g, v)]"
  by (induction srcs) auto

lemma stop_absent:
  "map_of (activeLoopedSources e) g = None \<Longrightarrow> stopLoopedSampleWithEffect e g = e"
  by (simp add: stopLoopedSampleWithEffect_def)

lemma stop_sources:
  "activeLoopedSources (stopLoopedSampleWithEffect e g) = AList.delete g (activeLoopedSources e)"
proof (cases "map_of (activeLoopedSources e) g")
  case None
  then have "g \<notin> fst ` set (activeLoopedSources e)" by (simp add: map_of_eq_None_iff)
  with None show ?thesis by (simp add: stop_absent AList.delete_id)
next
  case (Some v)
  then show ?thesis by (simp add: stopLoopedSampleWithEffect_def Let_def)
qed

lemma stop_playing:
  "playing (stopLoopedSampleWithEffect e g)
     = (if map_of (activeLoopedSources e) g = None then playing e else remove1 g (playing e))"
  by (simp add: stopLoopedSampleWithEffect_def Let_def split: option.splits)

lemma stop_effects_ok: "effects_ok e \<Longrightarrow> effects_ok (stopLoopedSampleWithEffect e g)"
proof (cases "map_of (activeLoopedSources e) g")
  case None
  assume "effects_ok e"
  with None show ?thesis by (simp add: stop_absent)
next
  case (Some v)
  assume ok: "effects_ok e"
  let ?e1 = "e\<lparr>playing := remove1 g (playing e)\<rparr>"
  have "effects_ok ?e1" using ok by (simp add: effects_ok_def)
  then have "effects_ok (snd (applyEffect ?e1 k False))" for k
    by (rule applyEffect_effects_ok)
  then show ?thesis using Some \<open>effects_ok ?e1\<close>
    by (simp add: stopLoopedSampleWithEffect_def Let_def effects_ok_def)
qed

lemma stop_one_voice:
  assumes "one_voice_per_region e"
  shows "one_voice_per_region (stopLoopedSampleWithEffect e g)"
proof (cases "map_of (activeLoopedSources e) g")
  case None
  with assms show ?thesis by (simp add: stop_absent)
next
  case (Some v)
  have d: "distinct (map fst (activeLoopedSources e))" "distinct (playing e)"
    and s: "set (playing e) = set (map fst (activeLoopedSources e))"
    using assms by (simp_all add: one_voice_per_region_def)
  have "distinct (map fst (AList.delete g (activeLoopedSources e)))"
    using d(1) by (rule AList.distinct_delete)
  moreover have "set (remove1 g (playing e)) = set (map fst (AList.delete g (activeLoopedSources e)))"
    using d(2) s by (simp add: AList.delete_keys)
  ultimately show ?thesis
    using Some d(2) by (simp add: one_voice_per_region_def stop_sources stop_playing)
qed

lemma applyEffect_playing_irrelevant:
  "webAudioEffects (snd (applyEffect (e\<lparr>playing := p\<rparr>) n b)) = webAudioEffects (snd (applyEffect e n b))
   \<and> bus (snd (applyEffect (e\<lparr>playing := p\<rparr>) n b)) = bus (snd (applyEffect e n b))"
  by (simp add: applyEffect_def split: property.splits)

lemma stop_refcount:
  assumes one: "one_voice_per_region e" and eok: "effects_ok e" and rc: "refcount_ok e"
  shows "refcount_ok (stopLoopedSampleWithEffect e g)"
proof (cases "map_of (activeLoopedSources e) g")
  case None
  with rc show ?thesis by (simp add: stop_absent)
next
  case (Some v)
  let ?srcs = "activeLoopedSources e"
  let ?cnt = "length (filter (\<lambda>a. effectName a = effectName v) (map snd ?srcs))"
  let ?s = "stopLoopedSampleWithEffect e g"
  let ?x = "if ?cnt \<le> 1 then snd (applyEffect e (property_key (effectName v)) False) else e"
  have d: "distinct (map fst ?srcs)" using one by (simp add: one_voice_per_region_def)
  have fx: "webAudioEffects ?s = webAudioEffects ?x" "bus ?s = bus ?x"
    using Some by (simp_all add: stopLoopedSampleWithEffect_def Let_def applyEffect_playing_irrelevant)
  have us: "users ?s m + (if effectName v = Some m then 1 else 0) = users e m" for m
    using filter_delete_count [OF d Some, of "\<lambda>a. effectName a = Some m"]
    by (simp add: users_def stop_sources)
  show ?thesis
    unfolding refcount_ok_def
  proof (intro allI impI)
    fix m eff'
    assume look: "webAudioEffects ?s m = Some eff'"
    show "(active eff' \<longleftrightarrow> 0 < users ?s m) \<and> (m \<in> bus ?s \<longleftrightarrow> active eff')"
    proof (cases "effectName v = Some m")
      case True
      then have cnt: "?cnt = users e m" by (simp add: users_def)
      have pos: "0 < users e m" using us [of m] True by simp
      show ?thesis
      proof (cases "?cnt \<le> 1")
        case le: True
        then have x: "?x = snd (applyEffect e m False)"
          using True by (simp add: property_key_def)
        have known: "webAudioEffects e m \<noteq> None"
        proof
          assume n: "webAudioEffects e m = None"
          then have "snd (applyEffect e m False) = e" by (rule applyEffect_not_own)
          with look fx x n show False by simp
        qed
        then obtain eff where eff: "webAudioEffects e m = Some eff" by auto
        have io: "nodes eff ''input'' \<noteq> None" "nodes eff ''output'' \<noteq> None"
          using eok eff by (auto simp add: effects_ok_def)
        have b: "m \<in> bus e \<longleftrightarrow> active eff" using rc eff by (simp add: refcount_ok_def)
        note same = applyEffect_same [OF eff io b, of False]
        have fxm: "webAudioEffects ?s m = webAudioEffects (snd (applyEffect e m False)) m"
          "bus ?s = bus (snd (applyEffect e m False))"
          using fx x by simp_all
        have "eff' = eff\<lparr>active := False\<rparr>" using same look fxm(1) by simp
        moreover have "m \<notin> bus ?s" using same fxm(2) by simp
        moreover have "users ?s m = 0" using us [of m] True le cnt by simp
        ultimately show ?thesis by simp
      next
        case gt: False
        then have x: "?x = e" by simp
        have "0 < users ?s m" using us [of m] True gt cnt by simp
        moreover have e_look: "webAudioEffects e m = Some eff'" using look fx(1) x by simp
        moreover have "active eff' \<and> m \<in> bus e"
          using rc e_look pos unfolding refcount_ok_def by blast
        moreover have "bus ?s = bus e" using fx(2) x by simp
        ultimately show ?thesis by simp
      qed
    next
      case False
      then have same_users: "users ?s m = users e m" using us [of m] by simp
      have xe: "webAudioEffects ?x m = webAudioEffects e m \<and> (m \<in> bus ?x \<longleftrightarrow> m \<in> bus e)"
      proof (cases "effectName v")
        case None
        have "webAudioEffects e ''null'' = None" using eok by (simp add: effects_ok_def)
        then show ?thesis using None by (simp add: property_key_def applyEffect_not_own)
      next
        case (Some n)
        with False have "m \<noteq> n" by auto
        then show ?thesis using Some
          by (simp add: property_key_def applyEffect_other applyEffect_bus_other)
      qed
      have e_look: "webAudioEffects e m = Some eff'"
        using look fx(1) xe by simp
      have "(active eff' \<longleftrightarrow> 0 < users e m) \<and> (m \<in> bus e \<longleftrightarrow> active eff')"
        using rc e_look unfolding refcount_ok_def by blast
      moreover have "m \<in> bus ?s \<longleftrightarrow> m \<in> bus e"
        using fx(2) xe by simp
      ultimately show ?thesis using same_users by simp
    qed
  qed
qed

lemma enter_eq: "startLoopedSampleWithEffect_enter e g = stopLoopedSampleWithEffect e g"
  by (simp add: startLoopedSampleWithEffect_enter_def stop_absent)

lemma stop_unregisters: "map_of (activeLoopedSources (stopLoopedSampleWithEffect e g)) g = None"
  by (simp add: stop_sources AList.delete_conv')

lemma stop_keeps_unregistered:
  "map_of (activeLoopedSources e) k = None \<Longrightarrow>
     map_of (activeLoopedSources (stopLoopedSampleWithEffect e g)) k = None"
  by (simp add: stop_sources AList.delete_conv')

lemma resume_undecodable:
  "startLoopedSampleWithEffect_resume e g Undecodable name vol
     = (False, (case name of
                  None \<Rightarrow> e
                | Some n \<Rightarrow> if n \<noteq> [] then snd (applyEffect e n False) else e))"
  by (simp add: startLoopedSampleWithEffect_resume_def)

lemma resume_decodable:
  "startLoopedSampleWithEffect_resume e g (Decodable d) name vol
     = (True, (fst (wired e name))
          \<lparr>playing := playing (fst (wired e name)) @ [g],
           activeLoopedSources :=
             AList.update g \<lparr>effectName = name, dryGain = fst (snd (wired e name)),
                              wetGain = snd (snd (wired e name))\<rparr>
               (activeLoopedSources (fst (wired e name)))\<rparr>)"
proof (cases name)
  case None
  then show ?thesis
    by (simp add: startLoopedSampleWithEffect_resume_def wired_def Let_def)
next
  case (Some n)
  obtain r x where ap: "applyEffect e n True = (r, x)"
    by force
  have w: "wired e name = (x, if r then (0.3, 0.7) else (1, 0))"
    using Some ap by (simp add: wired_def)
  show ?thesis
    unfolding startLoopedSampleWithEffect_resume_def w
    using Some ap by (cases r) (simp_all add: Let_def)
qed

lemma wired_sources: "activeLoopedSources (fst (wired e name)) = activeLoopedSources e"
  by (simp add: wired_def split: option.splits)

lemma wired_playing: "playing (fst (wired e name)) = playing e"
  by (simp add: wired_def split: option.splits)

lemma resume_sources:
  assumes "map_of (activeLoopedSources e) g = None"
  shows "activeLoopedSources (snd (startLoopedSampleWithEffect_resume e g (Decodable d) name vol))
     = activeLoopedSources e
         @ [(g, \<lparr>effectName = name, dryGain = fst (snd (wired e name)),
                 wetGain = snd (snd (wired e name))\<rparr>)]"
proof -
  have "g \<notin> fst ` set (activeLoopedSources e)"
    using assms by (simp add: map_of_eq_None_iff)
  then show ?thesis
    by (simp add: resume_decodable wired_sources update_fresh)
qed

lemma resume_playing:
  "playing (snd (startLoopedSampleWithEffect_resume e g (Decodable d) name vol)) = playing e @ [g]"
  by (simp add: resume_decodable wired_playing)

lemma resume_one_voice:
  assumes "one_voice_per_region e" and "map_of (activeLoopedSources e) g = None"
  shows "one_voice_per_region (snd (startLoopedSampleWithEffect_resume e g blob name vol))"
proof (cases blob)
  case Undecodable
  with assms(1) show ?thesis
    by (simp add: resume_undecodable one_voice_per_region_def split: option.splits)
next
  case (Decodable d)
  have fresh: "g \<notin> fst ` set (activeLoopedSources e)"
    using assms(2) by (simp add: map_of_eq_None_iff)
  then have "g \<notin> set (playing e)" using assms(1) by (simp add: one_voice_per_region_def)
  with assms fresh show ?thesis
    using Decodable
    by (simp add: resume_sources resume_playing one_voice_per_region_def)
qed

lemma wired_effects_ok: "effects_ok e \<Longrightarrow> effects_ok (fst (wired e name))"
  by (simp add: wired_def applyEffect_effects_ok split: option.splits)

lemma resume_effects_ok:
  assumes "effects_ok e"
  shows "effects_ok (snd (startLoopedSampleWithEffect_resume e g blob name vol))"
proof (cases blob)
  case Undecodable
  then show ?thesis using assms
    by (simp add: resume_undecodable applyEffect_effects_ok split: option.splits)
next
  case (Decodable d)
  have "effects_ok (fst (wired e name))" using assms by (rule wired_effects_ok)
  then show ?thesis using Decodable
    by (simp add: resume_decodable effects_ok_def)
qed

lemma resume_users:
  assumes "map_of (activeLoopedSources e) g = None"
  shows "users (snd (startLoopedSampleWithEffect_resume e g (Decodable d) name vol)) m
     = users e m + (if name = Some m then 1 else 0)"
  using assms by (simp add: users_def resume_sources)

lemma resume_effects:
  "webAudioEffects (snd (startLoopedSampleWithEffect_resume e g (Decodable d) name vol))
     = webAudioEffects (fst (wired e name))
   \<and> bus (snd (startLoopedSampleWithEffect_resume e g (Decodable d) name vol))
     = bus (fst (wired e name))"
  by (simp add: resume_decodable)

lemma resume_refcount:
  assumes eok: "effects_ok e" and rc: "refcount_ok e"
    and free: "map_of (activeLoopedSources e) g = None"
  shows "refcount_ok (snd (startLoopedSampleWithEffect_resume e g (Decodable d) name vol))"
proof -
  let ?s = "snd (startLoopedSampleWithEffect_resume e g (Decodable d) name vol)"
  show ?thesis
    unfolding refcount_ok_def
  proof (intro allI impI)
    fix m eff'
    assume look: "webAudioEffects ?s m = Some eff'"
    show "(active eff' \<longleftrightarrow> 0 < users ?s m) \<and> (m \<in> bus ?s \<longleftrightarrow> active eff')"
    proof (cases "name = Some m")
      case True
      then have w: "fst (wired e name) = snd (applyEffect e m True)"
        by (simp add: wired_def)
      have known: "webAudioEffects e m \<noteq> None"
      proof
        assume n: "webAudioEffects e m = None"
        then have "snd (applyEffect e m True) = e" by (rule applyEffect_not_own)
        moreover have "webAudioEffects ?s m = webAudioEffects (snd (applyEffect e m True)) m"
          using resume_effects [of e g d name vol] w by simp
        ultimately show False using look n by simp
      qed
      then obtain eff where eff: "webAudioEffects e m = Some eff" by auto
      have io: "nodes eff ''input'' \<noteq> None" "nodes eff ''output'' \<noteq> None"
        using eok eff by (auto simp add: effects_ok_def)
      have b: "m \<in> bus e \<longleftrightarrow> active eff" using rc eff by (simp add: refcount_ok_def)
      note same = applyEffect_same [OF eff io b, of True]
      have fx: "webAudioEffects ?s m = webAudioEffects (snd (applyEffect e m True)) m"
        "bus ?s = bus (snd (applyEffect e m True))"
        using resume_effects [of e g d name vol] w by simp_all
      have "eff' = eff\<lparr>active := True\<rparr>" using same look fx(1) by simp
      moreover have "m \<in> bus ?s" using same fx(2) by simp
      moreover have "0 < users ?s m" using True free by (simp add: resume_users)
      ultimately show ?thesis by simp
    next
      case False
      have us: "users ?s m = users e m" using False free by (simp add: resume_users)
      have xe: "webAudioEffects (fst (wired e name)) m = webAudioEffects e m
          \<and> (m \<in> bus (fst (wired e name)) \<longleftrightarrow> m \<in> bus e)"
      proof (cases name)
        case None
        then show ?thesis by (simp add: wired_def)
      next
        case (Some n)
        with False have "m \<noteq> n" by auto
        then show ?thesis using Some
          by (simp add: wired_def applyEffect_other applyEffect_bus_other)
      qed
      have fx: "webAudioEffects ?s m = webAudioEffects (fst (wired e name)) m"
        "(m \<in> bus ?s) = (m \<in> bus (fst (wired e name)))"
        using resume_effects [of e g d name vol] by simp_all
      have e_look: "webAudioEffects e m = Some eff'"
        using look fx(1) xe by simp
      have "(active eff' \<longleftrightarrow> 0 < users e m) \<and> (m \<in> bus e \<longleftrightarrow> active eff')"
        using rc e_look unfolding refcount_ok_def by blast
      moreover have "m \<in> bus ?s \<longleftrightarrow> m \<in> bus e"
        using fx(2) xe by simp
      ultimately show ?thesis using us by simp
    qed
  qed
qed

lemma created_io:
  assumes "n \<in> set effect_names"
  shows "createEffectNodes n ''input'' \<noteq> None \<and> createEffectNodes n ''output'' \<noteq> None"
proof -
  from assms have "n = ''pitchshifter'' \<or> n = ''ringmod'' \<or> n = ''freezer''
    \<or> n = ''vibrato'' \<or> n = ''filterdelay'' \<or> n = ''octaver''"
    by (simp add: effect_names_def)
  then show ?thesis
    by (elim disjE) (simp_all add: createEffectNodes_def)
qed

lemma loaded_lookup:
  assumes "webAudioEffects engine_loaded name = Some eff"
  shows "name \<in> set effect_names \<and> eff = \<lparr>active = False, nodes = createEffectNodes name\<rparr>"
proof -
  from assms have "map_of (map (\<lambda>n. (n, \<lparr>active = False, nodes = createEffectNodes n\<rparr>))
      effect_names) name = Some eff"
    by (simp add: engine_loaded_def)
  then have "(name, eff) \<in> set (map (\<lambda>n. (n, \<lparr>active = False, nodes = createEffectNodes n\<rparr>))
      effect_names)"
    by (rule map_of_SomeD)
  then obtain n where "n \<in> set effect_names"
    and "(name, eff) = (n, \<lparr>active = False, nodes = createEffectNodes n\<rparr>)"
    unfolding set_map by (rule imageE)
  then show ?thesis by simp
qed

lemma loaded_effects_ok: "effects_ok engine_loaded"
  unfolding effects_ok_def
proof (intro conjI allI impI)
  show "webAudioEffects engine_loaded ''null'' = None"
    by (simp add: engine_loaded_def effect_names_def)
next
  fix name eff
  assume "webAudioEffects engine_loaded name = Some eff"
  then have "name \<in> set effect_names \<and> eff = \<lparr>active = False, nodes = createEffectNodes name\<rparr>"
    by (rule loaded_lookup)
  then show "nodes eff ''input'' \<noteq> None" "nodes eff ''output'' \<noteq> None"
    using created_io [of name] by simp_all
qed

lemma loaded_refcount: "refcount_ok engine_loaded"
  unfolding refcount_ok_def
proof (intro allI impI)
  fix name eff
  assume "webAudioEffects engine_loaded name = Some eff"
  then have "name \<in> set effect_names \<and> eff = \<lparr>active = False, nodes = createEffectNodes name\<rparr>"
    by (rule loaded_lookup)
  then have "\<not> active eff" by simp
  then show "(active eff \<longleftrightarrow> 0 < users engine_loaded name) \<and> (name \<in> bus engine_loaded \<longleftrightarrow> active eff)"
    by (simp add: users_def engine_loaded_def)
qed

lemma loaded_one_voice: "one_voice_per_region engine_loaded"
  by (simp add: one_voice_per_region_def engine_loaded_def)


lemma resume_registers:
  "map_of (activeLoopedSources (snd (startLoopedSampleWithEffect_resume e g (Decodable d) name vol))) k
     = (if k = g
        then Some \<lparr>effectName = name, dryGain = fst (snd (wired e name)),
                   wetGain = snd (snd (wired e name))\<rparr>
        else map_of (activeLoopedSources e) k)"
  by (simp add: resume_decodable wired_sources update_conv')

lemma delete_filter: "AList.delete g xs = filter (\<lambda>p. fst p \<noteq> g) xs"
  by (induction xs) auto

lemma init_calls_ok: "calls_ok (calls_init engine_loaded)"
  by (simp add: calls_ok_def calls_init_def loaded_one_voice loaded_effects_ok loaded_refcount)

lemma step_calls_ok:
  assumes ok: "calls_ok c" and adm: "admissible c ev"
  shows "calls_ok (engine_step c ev)"
proof -
  have one: "one_voice_per_region (engine c)" and eok: "effects_ok (engine c)"
    and rc: "refcount_ok (engine c)"
    and dist: "distinct (map (fst \<circ> snd) (awaiting c))"
    and wait: "\<And>p. p \<in> set (awaiting c) \<Longrightarrow>
      fst (snd (snd p)) \<noteq> Undecodable
      \<and> map_of (activeLoopedSources (engine c)) (fst (snd p)) = None"
    using ok by (simp_all add: calls_ok_def)
  show ?thesis
  proof (cases ev)
    case (Start g blob name vol)
    let ?e = "stopLoopedSampleWithEffect (engine c) g"
    have step: "engine_step c ev
        = c\<lparr>engine := ?e, awaiting := awaiting c @ [(callsMade c, g, blob, name, vol)],
            callsMade := Suc (callsMade c)\<rparr>"
      using Start by (simp add: engine_step_def enter_eq)
    have blob: "blob \<noteq> Undecodable" and new: "g \<notin> set (map (fst \<circ> snd) (awaiting c))"
      using adm Start by (simp_all add: admissible_def)
    have "one_voice_per_region ?e" using one by (rule stop_one_voice)
    moreover have "effects_ok ?e" using eok by (rule stop_effects_ok)
    moreover have "refcount_ok ?e" using one eok rc by (rule stop_refcount)
    moreover have "distinct (map (fst \<circ> snd) (awaiting c @ [(callsMade c, g, blob, name, vol)]))"
      using dist new by simp
    moreover have "\<forall>p \<in> set (awaiting c @ [(callsMade c, g, blob, name, vol)]).
        fst (snd (snd p)) \<noteq> Undecodable \<and> map_of (activeLoopedSources ?e) (fst (snd p)) = None"
      using wait blob by (auto simp add: stop_unregisters stop_keeps_unregistered)
    ultimately show ?thesis
      unfolding step calls_ok_def by simp
  next
    case (Stop g)
    let ?e = "stopLoopedSampleWithEffect (engine c) g"
    have step: "engine_step c ev = c\<lparr>engine := ?e\<rparr>"
      using Stop by (simp add: engine_step_def)
    have "one_voice_per_region ?e" using one by (rule stop_one_voice)
    moreover have "effects_ok ?e" using eok by (rule stop_effects_ok)
    moreover have "refcount_ok ?e" using one eok rc by (rule stop_refcount)
    moreover have "\<forall>p \<in> set (awaiting c).
        fst (snd (snd p)) \<noteq> Undecodable \<and> map_of (activeLoopedSources ?e) (fst (snd p)) = None"
      using wait by (simp add: stop_keeps_unregistered)
    ultimately show ?thesis
      unfolding step calls_ok_def using dist by simp
  next
    case (Resume k)
    show ?thesis
    proof (cases "map_of (awaiting c) k")
      case None
      with Resume ok show ?thesis by (simp add: engine_step_def)
    next
      case (Some call)
      obtain g blob name vol where call: "call = (g, blob, name, vol)"
        by (cases call) auto
      have mem: "(k, g, blob, name, vol) \<in> set (awaiting c)"
        using Some call by (simp add: map_of_SomeD)
      from wait [OF mem] have blob: "blob \<noteq> Undecodable"
        and free: "map_of (activeLoopedSources (engine c)) g = None"
        by simp_all
      from blob obtain d where d: "blob = Decodable d" by (cases blob) auto
      let ?e = "snd (startLoopedSampleWithEffect_resume (engine c) g (Decodable d) name vol)"
      let ?rest = "AList.delete k (awaiting c)"
      have step: "engine_step c ev
          = c\<lparr>engine := ?e, awaiting := ?rest,
              returned := returned c
                @ [(k, fst (startLoopedSampleWithEffect_resume (engine c) g (Decodable d) name vol))]\<rparr>"
        using Resume Some call d by (simp add: engine_step_def Let_def)
      have rest: "?rest = filter (\<lambda>p. fst p \<noteq> k) (awaiting c)"
        by (rule delete_filter)
      have "one_voice_per_region ?e" using one free by (rule resume_one_voice)
      moreover have "effects_ok ?e" using eok by (rule resume_effects_ok)
      moreover have "refcount_ok ?e" using eok rc free by (rule resume_refcount)
      moreover have "distinct (map (fst \<circ> snd) ?rest)"
        unfolding rest using dist by (rule distinct_map_filter)
      moreover have "\<forall>p \<in> set ?rest.
          fst (snd (snd p)) \<noteq> Undecodable \<and> map_of (activeLoopedSources ?e) (fst (snd p)) = None"
      proof
        fix p
        assume "p \<in> set ?rest"
        then have p: "p \<in> set (awaiting c)" and pk: "fst p \<noteq> k"
          unfolding rest by simp_all
        have "inj_on (fst \<circ> snd) (set (awaiting c))"
          using dist by (simp add: distinct_map)
        moreover have "p \<noteq> (k, g, blob, name, vol)" using pk by auto
        ultimately have "(fst \<circ> snd) p \<noteq> (fst \<circ> snd) (k, g, blob, name, vol)"
          using p mem by (metis inj_onD)
        then have "fst (snd p) \<noteq> g" by simp
        with wait [OF p] show "fst (snd (snd p)) \<noteq> Undecodable
            \<and> map_of (activeLoopedSources ?e) (fst (snd p)) = None"
          by (simp add: resume_registers)
      qed
      ultimately show ?thesis
        unfolding step calls_ok_def by simp
    qed
  qed
qed

lemma run_calls_ok: "calls_ok c \<Longrightarrow> undisturbed c evs \<Longrightarrow> calls_ok (engine_run c evs)"
  unfolding engine_run_def
proof (induction evs arbitrary: c)
  case Nil
  then show ?case by simp
next
  case (Cons ev evs)
  have "calls_ok (engine_step c ev)"
    using Cons.prems by (simp add: step_calls_ok)
  moreover have "undisturbed (engine_step c ev) evs" using Cons.prems(2) by simp
  ultimately have "calls_ok (foldl engine_step (engine_step c ev) evs)" by (rule Cons.IH)
  then show ?case by simp
qed

text \<open>
  Along every sequence of calls from the loaded engine in which every blob decodes and no
  two starts of one region overlap, every effect is active, and on the bus, exactly when a
  registered voice references it, and every region has at most one voice, which is the
  only source sounding for it. Both conditions are needed, as the departures below show.
\<close>

lemma undisturbed_calls_keep_the_rules:
  assumes "undisturbed (calls_init engine_loaded) evs"
  shows "refcount_ok (engine (engine_run (calls_init engine_loaded) evs))"
    and "one_voice_per_region (engine (engine_run (calls_init engine_loaded) evs))"
  using run_calls_ok [OF init_calls_ok assms] by (simp_all add: calls_ok_def)

text \<open>
  The gains of a voice: 1.0 and 0.0 with \<open>null\<close> for the effect, 0.3 and 0.7 when
  \<open>applyEffect\<close> returned \<open>true\<close>, as it does for every effect that has its nodes.
\<close>

lemma applyEffect_true:
  assumes "effects_ok e" and "webAudioEffects e n \<noteq> None"
  shows "fst (applyEffect e n True)"
proof -
  from assms(2) obtain eff where eff: "webAudioEffects e n = Some eff" by auto
  with assms(1) have "nodes eff ''input'' \<noteq> None \<and> nodes eff ''output'' \<noteq> None"
    unfolding effects_ok_def by blast
  with eff show ?thesis by (simp add: applyEffect_def effect_of_own)
qed

lemma voice_gains:
  "map_of (activeLoopedSources
       (snd (startLoopedSampleWithEffect_resume e g (Decodable d) None vol))) g
     = Some \<lparr>effectName = None, dryGain = 1.0, wetGain = 0.0\<rparr>"
  "fst (applyEffect e n True) \<Longrightarrow>
     map_of (activeLoopedSources
         (snd (startLoopedSampleWithEffect_resume e g (Decodable d) (Some n) vol))) g
       = Some \<lparr>effectName = Some n, dryGain = 0.3, wetGain = 0.7\<rparr>"
  by (simp_all add: resume_registers wired_def)
subsection \<open>Departures from the rules\<close>

text \<open>
  C7. A start that fails to decode returns \<open>false\<close>, but its \<open>catch\<close> block calls
  \<open>applyEffect(effectName, false)\<close> without counting the voices that use the effect (as
  \<open>stopLoopedSampleWithEffect\<close> does): with region 0 playing through \<open>ringmod\<close>, a failed
  start for region 1 with \<open>ringmod\<close> takes the effect off the bus while region 0 still
  references it.
\<close>

theorem failed_start_disconnects_shared_effect:
  "isEffectActive ringmod_voice ''ringmod''
   \<and> map fst (activeLoopedSources ringmod_voice) = [0]
   \<and> fst failed_start = False
   \<and> map fst (activeLoopedSources (snd failed_start)) = [0]
   \<and> users (snd failed_start) ''ringmod'' = 1
   \<and> \<not> isEffectActive (snd failed_start) ''ringmod''
   \<and> ''ringmod'' \<notin> bus (snd failed_start)"
  by (simp add: failed_start_def ringmod_voice_def startLoopedSampleWithEffect_enter_def
      startLoopedSampleWithEffect_resume_def applyEffect_def effect_of_def loaded_ringmod
      isEffectActive_def users_def createEffectNodes_def loaded_fields)

text \<open>
  C1. The code departs from the reference-count rule after a start that fails to decode.
  Three voices are started on regions 0, 1 and 2, all through \<open>ringmod\<close>: the effect is
  active and on the bus, with three voices referencing it. A start for region 3 with
  \<open>ringmod\<close> then fails to decode: it returns \<open>false\<close>, and the effect is inactive and off
  the bus although the three voices are still registered. After regions 0 and 1 are
  stopped, one voice of the three remains and the effect is still inactive.
\<close>

theorem failed_start_breaks_reference_count:
  "returned three_voices_playing = [(0, True), (1, True), (2, True)]
   \<and> users (engine three_voices_playing) ''ringmod'' = 3
   \<and> isEffectActive (engine three_voices_playing) ''ringmod''
   \<and> ''ringmod'' \<in> bus (engine three_voices_playing)
   \<and> returned fourth_fails = [(0, True), (1, True), (2, True), (3, False)]
   \<and> map fst (activeLoopedSources (engine fourth_fails)) = [0, 1, 2]
   \<and> users (engine fourth_fails) ''ringmod'' = 3
   \<and> \<not> isEffectActive (engine fourth_fails) ''ringmod''
   \<and> ''ringmod'' \<notin> bus (engine fourth_fails)
   \<and> map fst (activeLoopedSources (engine two_stopped)) = [2]
   \<and> users (engine two_stopped) ''ringmod'' = 1
   \<and> \<not> isEffectActive (engine two_stopped) ''ringmod''
   \<and> ''ringmod'' \<notin> bus (engine two_stopped)"
  by (simp add: two_stopped_def fourth_fails_def three_voices_playing_def three_voices_def
      engine_run_def engine_step_def calls_init_def startLoopedSampleWithEffect_enter_def
      startLoopedSampleWithEffect_resume_def stopLoopedSampleWithEffect_def property_key_def
      applyEffect_def effect_of_def loaded_ringmod isEffectActive_def users_def
      createEffectNodes_def loaded_fields)

text \<open>
  C6. The code tears down the voice that is registered when the call is made, before the
  blob is decoded, and registers the new voice after the decoding without looking again.
  When region 0 is started twice before either blob is decoded, both calls find no voice to
  tear down, both succeed, and two sources sound for region 0, of which the registry holds
  the second only. Stopping region 0 then stops one source and empties the registry: the
  other source goes on sounding, and no further stop reaches it.
\<close>

theorem overlapping_starts_leave_two_sources:
  "returned started_twice = [(0, True), (1, True)]
   \<and> playing (engine started_twice) = [0, 0]
   \<and> map fst (activeLoopedSources (engine started_twice)) = [0]
   \<and> playing (engine then_stopped) = [0]
   \<and> activeLoopedSources (engine then_stopped) = []
   \<and> engine (engine_run then_stopped [Stop 0]) = engine then_stopped"
  by (simp add: then_stopped_def started_twice_def engine_run_def engine_step_def
      calls_init_def startLoopedSampleWithEffect_enter_def
      startLoopedSampleWithEffect_resume_def stopLoopedSampleWithEffect_def property_key_def
      applyEffect_def effect_of_def loaded_ringmod users_def createEffectNodes_def
      loaded_fields)

subsection \<open>Recording trigger\<close>

lemma handleRecordingPressure_threshold:
  "pressureThreshold (handleRecordingPressure a p) = pressureThreshold a"
  by (simp add: handleRecordingPressure_def Let_def startRecording_def stopRecording_def)

lemma handleRecordingPressure_not_ready:
  assumes "\<not> recordingReady a" and "p > pressureThreshold a"
  shows "\<not> recordingReady (handleRecordingPressure a p)
     \<and> recordingState (handleRecordingPressure a p) = recordingState a
     \<and> recordingsStarted (handleRecordingPressure a p) = recordingsStarted a"
  using assms by (simp add: handleRecordingPressure_def Let_def)

lemma pressed_frames_not_ready:
  "\<not> recordingReady a \<Longrightarrow> \<forall>p \<in> set ps. p > pressureThreshold a \<Longrightarrow>
     \<not> recordingReady (foldl handleRecordingPressure a ps)
     \<and> recordingState (foldl handleRecordingPressure a ps) = recordingState a
     \<and> recordingsStarted (foldl handleRecordingPressure a ps) = recordingsStarted a"
proof (induction ps arbitrary: a)
  case Nil
  then show ?case by simp
next
  case (Cons p ps)
  have p: "p > pressureThreshold a" using Cons.prems(2) by simp
  note step = handleRecordingPressure_not_ready [OF Cons.prems(1) p]
  have "\<forall>q \<in> set ps. q > pressureThreshold (handleRecordingPressure a p)"
    using Cons.prems(2) by (simp add: handleRecordingPressure_threshold)
  with step have "\<not> recordingReady (foldl handleRecordingPressure (handleRecordingPressure a p) ps)
     \<and> recordingState (foldl handleRecordingPressure (handleRecordingPressure a p) ps)
         = recordingState (handleRecordingPressure a p)
     \<and> recordingsStarted (foldl handleRecordingPressure (handleRecordingPressure a p) ps)
         = recordingsStarted (handleRecordingPressure a p)"
    by (intro Cons.IH) simp_all
  with step show ?case by simp
qed

lemma ready_only_when_unpressed:
  "\<not> recordingReady a \<Longrightarrow> recordingReady (handleRecordingPressure a p) \<Longrightarrow> p \<le> pressureThreshold a"
  using handleRecordingPressure_not_ready [of a p] by force

lemma clearTimeout_ready: "recordingReady (foldl clearTimeout b ts) = recordingReady b"
  by (induction ts arbitrary: b) (auto simp: clearTimeout_def split: option.splits)

lemma switchMode_ready: "recordingReady (switchMode a m)"
  by (simp add: switchMode_def Let_def clearAllActiveEffectsAndSamples_def clearTimeout_ready)

lemma clear_no_timers: "foldl clearTimeout b (replicate n None) = b"
  by (induction n) (simp_all add: clearTimeout_def)

text \<open>
  C5, as stated, fails: \<open>switchMode\<close> sets \<open>recordingReady\<close> to true ("Allow immediate
  recording when entering RECORD mode"), so after a mode entry the first frame of a pressed
  mat is a rising edge that starts a recording, although the mat was never seen unpressed.
\<close>

theorem pressed_at_mode_entry_records:
  "recordingReady (switchMode app_init RECORD)
   \<and> 1000 > pressureThreshold (switchMode app_init RECORD)
   \<and> recordingState (handleRecordingPressure (switchMode app_init RECORD) 1000) = recording
   \<and> recordingsStarted (handleRecordingPressure (switchMode app_init RECORD) 1000) = 1"
  by (simp add: switchMode_def Let_def clearAllActiveEffectsAndSamples_def app_init_def
      handleRecordingPressure_def startRecording_def clear_no_timers)

text \<open>
  C5, amended. \<open>recordingReady\<close> is false in the session as constructed. While it is false,
  frames of a pressed mat (total pressure above the threshold) leave it false and start no
  recording, however many arrive; a frame turns it from false to true only if the mat is
  unpressed in that frame. Every call of \<open>switchMode\<close> sets it to true.
\<close>

theorem recording_ready_gate:
  "\<not> recordingReady app_init
   \<and> (\<not> recordingReady a \<and> (\<forall>p \<in> set ps. p > pressureThreshold a) \<longrightarrow>
        \<not> recordingReady (foldl handleRecordingPressure a ps)
        \<and> recordingState (foldl handleRecordingPressure a ps) = recordingState a
        \<and> recordingsStarted (foldl handleRecordingPressure a ps) = recordingsStarted a)
   \<and> (\<not> recordingReady a \<and> recordingReady (handleRecordingPressure a p) \<longrightarrow>
        p \<le> pressureThreshold a)
   \<and> recordingReady (switchMode a m)"
  using pressed_frames_not_ready [of a ps] ready_only_when_unpressed [of a p]
    switchMode_ready [of a m]
  by (simp add: app_init_def)

theorem recording_ready_gate_witness:
  "recordingState (foldl handleRecordingPressure app_init [1000, 30, 2000]) = idle
   \<and> recordingsStarted (foldl handleRecordingPressure app_init [1000, 30, 2000]) = 0
   \<and> \<not> recordingReady (foldl handleRecordingPressure app_init [1000, 30, 2000])
   \<and> recordingReady (handleRecordingPressure app_init 3)
   \<and> recordingReady (switchMode app_init PERFORM)"
proof -
  have r: "recordingReady (handleRecordingPressure app_init 3)"
    by (simp add: handleRecordingPressure_def app_init_def)
  show ?thesis
    using recording_ready_gate [of app_init "[1000, 30, 2000]" 3 PERFORM] r
    by (simp add: app_init_def)
qed

subsection \<open>Master capture\<close>

text \<open>
  C8, as stated, fails: with a capture in progress, \<open>startPerformanceRecording\<close> of the
  engine is not rejected; it starts a second recorder beside the first.
\<close>

theorem second_capture_not_rejected:
  "masterTaps capturing = [0]
   \<and> startPerformanceRecording capturing True \<noteq> None
   \<and> masterTaps (the (startPerformanceRecording capturing True)) = [0, 1]"
  by (simp add: capturing_def startPerformanceRecording_def)

text \<open>
  C8, amended. The engine's \<open>startPerformanceRecording\<close> has no guard: on a platform that
  supports the recorder it always succeeds, adds a recorder to those tapping the master bus
  and replaces the stored recorder, whether or not a capture is in progress. The one guard
  is in the session: while \<open>isPerformanceRecording\<close> is set, \<open>togglePerformanceRecording\<close>
  creates no recorder and adds no tap; it stops the capture and clears the flag.
\<close>

theorem startPerformanceRecording_unguarded:
  "(\<exists>e'. startPerformanceRecording e True = Some e'
        \<and> masterTaps e' = masterTaps e @ [recordersCreated e]
        \<and> performanceRecorder e' = Some (recordersCreated e))
   \<and> (isPerformanceRecording a \<longrightarrow>
        recordersCreated (audioEngine (togglePerformanceRecording a supported))
          = recordersCreated (audioEngine a)
        \<and> set (masterTaps (audioEngine (togglePerformanceRecording a supported)))
            \<subseteq> set (masterTaps (audioEngine a))
        \<and> \<not> isPerformanceRecording (togglePerformanceRecording a supported))"
  by (auto simp add: startPerformanceRecording_def togglePerformanceRecording_def
      app_stopPerformanceRecording_def stopPerformanceRecording_def split: option.splits)

theorem startPerformanceRecording_unguarded_witness:
  "(\<exists>e'. startPerformanceRecording capturing True = Some e' \<and> masterTaps e' = [0, 1])
   \<and> masterTaps (audioEngine (togglePerformanceRecording
        (app_init\<lparr>audioEngine := capturing, isPerformanceRecording := True\<rparr>) True)) = []"
proof -
  have s: "set (masterTaps (audioEngine (togglePerformanceRecording
        (app_init\<lparr>audioEngine := capturing, isPerformanceRecording := True\<rparr>) True))) \<subseteq> {0}
       \<Longrightarrow> masterTaps (audioEngine (togglePerformanceRecording
        (app_init\<lparr>audioEngine := capturing, isPerformanceRecording := True\<rparr>) True)) = []"
    by (simp add: togglePerformanceRecording_def app_stopPerformanceRecording_def
        stopPerformanceRecording_def capturing_def)
  show ?thesis
    using startPerformanceRecording_unguarded [of capturing
        "app_init\<lparr>audioEngine := capturing, isPerformanceRecording := True\<rparr>" True] s
    by (auto simp add: capturing_def)
qed

subsection \<open>Region debounce\<close>

lemma pending_region:
  assumes ok: "timers_ok a" and k: "k < 9" and p: "(h, t) \<in> set (timeouts a)"
  shows "(gridCellDebounceTimers a ! k = Some h) = (gridIndex t = k)"
proof -
  from ok p have "\<forall>j < 9. gridCellDebounceTimers a ! j = Some h \<longleftrightarrow> j = gridIndex t"
    unfolding timers_ok_def by blast
  with k show ?thesis by auto
qed

lemma pending_old:
  assumes ok: "timers_ok a" and p: "(h, t) \<in> set (timeouts a)"
  shows "h < timeoutsCreated a" and "gridIndex t < 9"
  using assms unfolding timers_ok_def by blast+

lemma slot_old:
  assumes ok: "timers_ok a" and k: "k < 9" and s: "gridCellDebounceTimers a ! k = Some h"
  shows "h < timeoutsCreated a"
  using assms unfolding timers_ok_def by blast

lemma cancel_filter:
  assumes ok: "timers_ok a" and k: "k < 9" and s: "gridCellDebounceTimers a ! k = Some h"
  shows "AList.delete h (filter (\<lambda>(h, t). k \<le> gridIndex t) (timeouts a))
           = filter (\<lambda>(h, t). Suc k \<le> gridIndex t) (timeouts a)"
proof -
  have "filter (\<lambda>p. fst p \<noteq> h) (filter (\<lambda>(h, t). k \<le> gridIndex t) (timeouts a))
      = filter (\<lambda>(h, t). Suc k \<le> gridIndex t) (timeouts a)"
    unfolding filter_filter
  proof (rule filter_cong [OF refl])
    fix p assume pm: "p \<in> set (timeouts a)"
    obtain h' t where p: "p = (h', t)" by (cases p) auto
    have m: "(h', t) \<in> set (timeouts a)" using pm p by simp
    have "(gridCellDebounceTimers a ! k = Some h') = (gridIndex t = k)"
      using ok k m by (rule pending_region)
    with s have "(h' = h) = (gridIndex t = k)" by auto
    then show "((case p of (h, t) \<Rightarrow> k \<le> gridIndex t) \<and> fst p \<noteq> h)
        = (case p of (h, t) \<Rightarrow> Suc k \<le> gridIndex t)"
      using p by auto
  qed
  moreover have "AList.delete h xs = filter (\<lambda>p. fst p \<noteq> h) xs" for xs :: "(nat \<times> timeout) list"
    by (induction xs) auto
  ultimately show ?thesis by simp
qed

lemma no_timer_filter:
  assumes ok: "timers_ok a" and k: "k < 9" and s: "gridCellDebounceTimers a ! k = None"
  shows "filter (\<lambda>(h, t). k \<le> gridIndex t) (timeouts a)
           = filter (\<lambda>(h, t). Suc k \<le> gridIndex t) (timeouts a)"
proof (rule filter_cong [OF refl])
  fix p assume pm: "p \<in> set (timeouts a)"
  obtain h' t where p: "p = (h', t)" by (cases p) auto
  have m: "(h', t) \<in> set (timeouts a)" using pm p by simp
  have "(gridCellDebounceTimers a ! k = Some h') = (gridIndex t = k)"
    using ok k m by (rule pending_region)
  with s have "gridIndex t \<noteq> k" by auto
  then show "(case p of (h, t) \<Rightarrow> k \<le> gridIndex t) = (case p of (h, t) \<Rightarrow> Suc k \<le> gridIndex t)"
    using p by auto
qed

lemma delete_fresh:
  "\<forall>p \<in> set ys. fst p \<noteq> h \<Longrightarrow> AList.delete h (xs @ ys) = AList.delete h xs @ ys"
  by (induction ys) (auto simp add: AList.delete_eq)

lemma partly_step:
  assumes ok: "timers_ok a" and k: "k < 9"
  shows "checkRegion now m (partly a now m k) k = partly a now m (Suc k)"
proof -
  let ?c = "timeoutsCreated a"
  let ?old = "filter (\<lambda>(h, t). k \<le> gridIndex t) (timeouts a)"
  let ?new = "map (\<lambda>j. (?c + j, scheduled a now m j)) [0 ..< k]"
  have len: "length (gridCellDebounceTimers a) = 9" using ok by (simp add: timers_ok_def)
  have slot: "gridCellDebounceTimers (partly a now m k) ! k = gridCellDebounceTimers a ! k"
    using k len by (simp add: partly_def nth_append)
  have cancelled: "timeouts (clearTimeout (partly a now m k) (gridCellDebounceTimers a ! k))
      = filter (\<lambda>(h, t). Suc k \<le> gridIndex t) (timeouts a) @ ?new"
  proof (cases "gridCellDebounceTimers a ! k")
    case None
    then show ?thesis
      using no_timer_filter [OF ok k None] by (simp add: clearTimeout_def partly_def)
  next
    case (Some h)
    have "h < ?c" using ok k Some by (rule slot_old)
    then have "\<forall>p \<in> set ?new. fst p \<noteq> h" by auto
    then have "AList.delete h (?old @ ?new) = AList.delete h ?old @ ?new"
      by (rule delete_fresh)
    then show ?thesis
      using cancel_filter [OF ok k Some] Some by (simp add: clearTimeout_def partly_def)
  qed
  have rest: "clearTimeout (partly a now m k) (gridCellDebounceTimers a ! k)
      = (partly a now m k)\<lparr>timeouts := filter (\<lambda>(h, t). Suc k \<le> gridIndex t) (timeouts a) @ ?new\<rparr>"
    using cancelled by (simp add: clearTimeout_def split: option.splits)
  have upd: "(map (\<lambda>j. Some (?c + j)) [0 ..< k] @ drop k (gridCellDebounceTimers a))[k := Some (?c + k)]
      = map (\<lambda>j. Some (?c + j)) [0 ..< Suc k] @ drop (Suc k) (gridCellDebounceTimers a)"
    using k len by (simp add: list_update_append upd_conv_take_nth_drop)
  show ?thesis
    unfolding checkRegion_def slot rest
    by (simp add: Let_def partly_def scheduled_def upd)
qed

lemma partly_0: "partly a now m 0 = a"
  by (simp add: partly_def)

lemma regions_9: "length gridRegions = 9"
  by (simp add: gridRegions_def)

lemma foldl_partly:
  assumes ok: "timers_ok a"
  shows "k \<le> 9 \<Longrightarrow> foldl (checkRegion now m) a [0 ..< k] = partly a now m k"
proof (induction k)
  case 0
  show ?case by (simp add: partly_0)
next
  case (Suc k)
  then have "k < 9" and "foldl (checkRegion now m) a [0 ..< k] = partly a now m k" by simp_all
  then show ?case using partly_step [OF ok, of k now m] by simp
qed

lemma frame_result:
  assumes ok: "timers_ok a"
  shows "checkGridCellsForPressure a now m
     = a\<lparr>timeouts := map (\<lambda>j. (timeoutsCreated a + j, scheduled a now m j)) [0 ..< 9],
         timeoutsCreated := timeoutsCreated a + 9,
         gridCellDebounceTimers := map (\<lambda>j. Some (timeoutsCreated a + j)) [0 ..< 9]\<rparr>"
proof -
  have "filter (\<lambda>(h, t). 9 \<le> gridIndex t) (timeouts a) = []"
    using ok by (auto simp add: filter_empty_conv timers_ok_def)
  moreover have "drop 9 (gridCellDebounceTimers a) = []"
    using ok by (simp add: timers_ok_def)
  ultimately have "partly a now m 9
     = a\<lparr>timeouts := map (\<lambda>j. (timeoutsCreated a + j, scheduled a now m j)) [0 ..< 9],
         timeoutsCreated := timeoutsCreated a + 9,
         gridCellDebounceTimers := map (\<lambda>j. Some (timeoutsCreated a + j)) [0 ..< 9]\<rparr>"
    by (simp add: partly_def)
  then show ?thesis
    using foldl_partly [OF ok, of 9 now m]
    by (simp add: checkGridCellsForPressure_def regions_9)
qed

lemma frame_pending:
  assumes ok: "timers_ok a" and p: "(h, t) \<in> set (timeouts (checkGridCellsForPressure a now m))"
  shows "\<exists>j < 9. h = timeoutsCreated a + j \<and> t = scheduled a now m j"
  using p unfolding frame_result [OF ok] by auto

lemma frame_timers_ok:
  assumes ok: "timers_ok a"
  shows "timers_ok (checkGridCellsForPressure a now m)"
proof -
  have len: "length (gridCellPressureState a) = 9" using ok by (simp add: timers_ok_def)
  have d: "distinct (map (\<lambda>j. timeoutsCreated a + j) [0 ..< 9])"
    by (simp add: distinct_map inj_on_def)
  show ?thesis
    unfolding frame_result [OF ok] timers_ok_def
    using len d by (auto simp add: comp_def scheduled_def)
qed

lemma frame_slot:
  assumes ok: "timers_ok a" and gi: "gi < 9"
  shows "gridCellDebounceTimers (checkGridCellsForPressure a now m) ! gi
           = Some (timeoutsCreated a + gi)"
    and "map_of (timeouts (checkGridCellsForPressure a now m)) (timeoutsCreated a + gi)
           = Some (scheduled a now m gi)"
proof -
  show "gridCellDebounceTimers (checkGridCellsForPressure a now m) ! gi
           = Some (timeoutsCreated a + gi)"
    unfolding frame_result [OF ok] using gi by simp
  have "(timeoutsCreated a + gi, scheduled a now m gi)
      \<in> set (map (\<lambda>j. (timeoutsCreated a + j, scheduled a now m j)) [0 ..< 9])"
    using gi by auto
  moreover have "distinct (map fst (map (\<lambda>j. (timeoutsCreated a + j, scheduled a now m j)) [0 ..< 9]))"
    by (simp add: comp_def distinct_map inj_on_def)
  ultimately show "map_of (timeouts (checkGridCellsForPressure a now m)) (timeoutsCreated a + gi)
           = Some (scheduled a now m gi)"
    unfolding frame_result [OF ok] by (simp add: map_of_is_SomeI)
qed

lemma frame_unchanged:
  assumes ok: "timers_ok a"
  shows "gridCellPressureState (checkGridCellsForPressure a now m) = gridCellPressureState a"
    and "transitions (checkGridCellsForPressure a now m) = transitions a"
    and "pressureDebounceMs (checkGridCellsForPressure a now m) = pressureDebounceMs a"
    and "pressureThreshold (checkGridCellsForPressure a now m) = pressureThreshold a"
  unfolding frame_result [OF ok] by simp_all

lemma fire_not_due:
  assumes "map_of (timeouts a) h = Some t" and "now < due t"
  shows "fireTimeout a now h = a"
  using assms by (simp add: fireTimeout_def)

lemma fire_not_pending:
  assumes "map_of (timeouts a) h = None"
  shows "fireTimeout a now h = a"
  using assms by (simp add: fireTimeout_def)

lemma fire_due:
  assumes "map_of (timeouts a) h = Some t" and "due t \<le> now"
    and "gridIndex t < length (gridCellPressureState a)"
  shows "gridCellPressureState (fireTimeout a now h)
           = (gridCellPressureState a)[gridIndex t := isPressed t]"
    and "transitions (fireTimeout a now h)
           = transitions a @ (if isPressed t \<noteq> gridCellPressureState a ! gridIndex t
                              then [(gridIndex t, isPressed t, maxPressureInRegion t)] else [])"
    and "timeouts (fireTimeout a now h) = AList.delete h (timeouts a)"
proof -
  have same: "(gridCellPressureState a)[gridIndex t := isPressed t] = gridCellPressureState a"
    if "isPressed t = gridCellPressureState a ! gridIndex t"
    using that by (simp add: list_update_id)
  show "gridCellPressureState (fireTimeout a now h)
           = (gridCellPressureState a)[gridIndex t := isPressed t]"
  proof (cases "isPressed t = gridCellPressureState a ! gridIndex t")
    case True
    then have "debounceCallback (a\<lparr>timeouts := AList.delete h (timeouts a)\<rparr>) t
        = a\<lparr>timeouts := AList.delete h (timeouts a)\<rparr>"
      by (simp add: debounceCallback_def Let_def)
    then show ?thesis using assms same [OF True] by (simp add: fireTimeout_def)
  next
    case False
    then show ?thesis using assms
      by (auto simp add: fireTimeout_def debounceCallback_def Let_def)
  qed
  show "transitions (fireTimeout a now h)
           = transitions a @ (if isPressed t \<noteq> gridCellPressureState a ! gridIndex t
                              then [(gridIndex t, isPressed t, maxPressureInRegion t)] else [])"
    using assms by (auto simp add: fireTimeout_def debounceCallback_def Let_def)
  show "timeouts (fireTimeout a now h) = AList.delete h (timeouts a)"
    using assms by (auto simp add: fireTimeout_def debounceCallback_def Let_def)
qed

lemma sensitivity_fields:
  "timeouts (updateSensitivity a v) = timeouts a"
  "gridCellPressureState (updateSensitivity a v) = gridCellPressureState a"
  "transitions (updateSensitivity a v) = transitions a"
  "gridCellDebounceTimers (updateSensitivity a v) = gridCellDebounceTimers a"
  "pressureDebounceMs (updateSensitivity a v) = pressureDebounceMs a"
  "pressureThreshold (updateSensitivity a v) = v"
  by (simp_all add: updateSensitivity_def)

lemma sensitivity_timers_ok: "timers_ok a \<Longrightarrow> timers_ok (updateSensitivity a v)"
  by (simp add: timers_ok_def updateSensitivity_def)

lemma frame_then_fire:
  "timers_ok a \<and> gi < 9 \<and> now + pressureDebounceMs a \<le> fire_time \<longrightarrow>
     gridCellDebounceTimers (updateSensitivity (checkGridCellsForPressure a now m) v) ! gi
       = Some (timeoutsCreated a + gi)
     \<and> gridCellPressureState
         (fireTimeout (updateSensitivity (checkGridCellsForPressure a now m) v) fire_time
            (timeoutsCreated a + gi))
       = (gridCellPressureState a)
           [gi := above (regionMax m (gridRegions ! gi)) (pressureThreshold a)]
     \<and> transitions
         (fireTimeout (updateSensitivity (checkGridCellsForPressure a now m) v) fire_time
            (timeoutsCreated a + gi))
       = transitions a
           @ (if above (regionMax m (gridRegions ! gi)) (pressureThreshold a)
                   \<noteq> gridCellPressureState a ! gi
              then [(gi, above (regionMax m (gridRegions ! gi)) (pressureThreshold a),
                     regionMax m (gridRegions ! gi))]
              else [])"
proof (intro impI)
  assume asm: "timers_ok a \<and> gi < 9 \<and> now + pressureDebounceMs a \<le> fire_time"
  then have ok: "timers_ok a" and gi: "gi < 9"
    and late: "now + pressureDebounceMs a \<le> fire_time" by simp_all
  let ?f = "checkGridCellsForPressure a now m"
  let ?s = "updateSensitivity ?f v"
  let ?h = "timeoutsCreated a + gi"
  let ?t = "scheduled a now m gi"
  have pend: "map_of (timeouts ?s) ?h = Some ?t"
    using frame_slot(2) [OF ok gi] by (simp add: sensitivity_fields)
  have due: "due ?t \<le> fire_time" using late by (simp add: scheduled_def)
  have len: "gridIndex ?t < length (gridCellPressureState ?s)"
    using ok gi by (simp add: sensitivity_fields frame_unchanged scheduled_def timers_ok_def)
  have st: "gridCellPressureState ?s = gridCellPressureState a"
    "transitions ?s = transitions a"
    using ok by (simp_all add: sensitivity_fields frame_unchanged)
  have slot: "gridCellDebounceTimers ?s ! gi = Some ?h"
    using frame_slot(1) [OF ok gi] by (simp add: sensitivity_fields)
  have cap: "isPressed ?t = above (regionMax m (gridRegions ! gi)) (pressureThreshold a)"
    "maxPressureInRegion ?t = regionMax m (gridRegions ! gi)" "gridIndex ?t = gi"
    by (simp_all add: scheduled_def)
  show "gridCellDebounceTimers ?s ! gi = Some ?h
     \<and> gridCellPressureState (fireTimeout ?s fire_time ?h)
       = (gridCellPressureState a)
           [gi := above (regionMax m (gridRegions ! gi)) (pressureThreshold a)]
     \<and> transitions (fireTimeout ?s fire_time ?h)
       = transitions a
           @ (if above (regionMax m (gridRegions ! gi)) (pressureThreshold a)
                   \<noteq> gridCellPressureState a ! gi
              then [(gi, above (regionMax m (gridRegions ! gi)) (pressureThreshold a),
                     regionMax m (gridRegions ! gi))]
              else [])"
    using slot fire_due(1) [OF pend due len] fire_due(2) [OF pend due len]
    unfolding cap st by simp
qed

lemma init_timers_ok: "timers_ok app_init"
  by (simp add: timers_ok_def app_init_def)

lemma timers_ok_subset:
  assumes ok: "timers_ok a" and sub: "set xs \<subseteq> set (timeouts a)"
    and d: "distinct (map fst xs)"
  shows "timers_ok (a\<lparr>timeouts := xs\<rparr>)"
proof -
  have "h < timeoutsCreated a \<and> gridIndex t < 9
      \<and> (\<forall>j < 9. gridCellDebounceTimers a ! j = Some h \<longleftrightarrow> j = gridIndex t)"
    if "(h, t) \<in> set xs" for h t
  proof -
    from that sub have p: "(h, t) \<in> set (timeouts a)" by auto
    show ?thesis
      using pending_old [OF ok p] pending_region [OF ok _ p] by auto
  qed
  then have "\<forall>(h, t) \<in> set xs. h < timeoutsCreated a \<and> gridIndex t < 9
      \<and> (\<forall>j < 9. gridCellDebounceTimers a ! j = Some h \<longleftrightarrow> j = gridIndex t)"
    by auto
  moreover have "length (gridCellPressureState a) = 9" "length (gridCellDebounceTimers a) = 9"
    "\<forall>j < 9. \<forall>h. gridCellDebounceTimers a ! j = Some h \<longrightarrow> h < timeoutsCreated a"
    using ok unfolding timers_ok_def by blast+
  ultimately show ?thesis using d unfolding timers_ok_def by simp
qed

lemma fire_timers_ok:
  assumes ok: "timers_ok a"
  shows "timers_ok (fireTimeout a now h)"
proof (cases "map_of (timeouts a) h")
  case None
  with ok show ?thesis by (simp add: fire_not_pending)
next
  case (Some t)
  show ?thesis
  proof (cases "due t \<le> now")
    case False
    with Some ok show ?thesis by (simp add: fire_not_due)
  next
    case True
    have sub: "set (AList.delete h (timeouts a)) \<subseteq> set (timeouts a)"
      by (auto simp add: AList.delete_eq)
    have d: "distinct (map fst (AList.delete h (timeouts a)))"
      using ok by (simp add: timers_ok_def AList.distinct_delete)
    have "timers_ok (a\<lparr>timeouts := AList.delete h (timeouts a)\<rparr>)"
      using ok sub d by (rule timers_ok_subset)
    then have "timers_ok (debounceCallback (a\<lparr>timeouts := AList.delete h (timeouts a)\<rparr>) t)"
      by (simp add: timers_ok_def debounceCallback_def Let_def)
    with Some True show ?thesis by (simp add: fireTimeout_def)
  qed
qed

lemma rapid_run:
  "timers_ok a \<Longrightarrow> \<forall>(h, t) \<in> set (timeouts a). due t = latest + pressureDebounceMs a \<Longrightarrow>
   rapid (pressureDebounceMs a) latest evs \<Longrightarrow>
     transitions (app_run a evs) = transitions a
     \<and> gridCellPressureState (app_run a evs) = gridCellPressureState a"
  unfolding app_run_def
proof (induction evs arbitrary: a latest)
  case Nil
  show ?case by simp
next
  case (Cons ev evs)
  note ok = Cons.prems(1) and dues = Cons.prems(2) and rap = Cons.prems(3)
  show ?case
  proof (cases ev)
    case (Frame now m)
    let ?f = "checkGridCellsForPressure a now m"
    have d: "pressureDebounceMs ?f = pressureDebounceMs a" using ok by (rule frame_unchanged(3))
    have 1: "timers_ok ?f" using ok by (rule frame_timers_ok)
    have 2: "\<forall>(h, t) \<in> set (timeouts ?f). due t = now + pressureDebounceMs ?f"
      using frame_pending [OF ok] d by (fastforce simp add: scheduled_def)
    have 3: "rapid (pressureDebounceMs ?f) now evs" using rap Frame d by simp
    from Cons.IH [OF 1 2 3] show ?thesis
      using Frame frame_unchanged(1,2) [OF ok] by simp
  next
    case (Timeout now h)
    have early: "now < latest + pressureDebounceMs a" using rap Timeout by simp
    have same: "fireTimeout a now h = a"
    proof (cases "map_of (timeouts a) h")
      case None
      then show ?thesis by (rule fire_not_pending)
    next
      case (Some t)
      then have "(h, t) \<in> set (timeouts a)" by (rule map_of_SomeD)
      with dues have "due t = latest + pressureDebounceMs a" by auto
      with early have "now < due t" by simp
      with Some show ?thesis by (rule fire_not_due)
    qed
    have 3: "rapid (pressureDebounceMs a) latest evs" using rap Timeout by simp
    from Cons.IH [OF ok dues 3] show ?thesis using Timeout same by simp
  next
    case (Sensitivity v)
    let ?s = "updateSensitivity a v"
    have 1: "timers_ok ?s" using ok by (rule sensitivity_timers_ok)
    have 2: "\<forall>(h, t) \<in> set (timeouts ?s). due t = latest + pressureDebounceMs ?s"
      using dues by (simp add: sensitivity_fields)
    have 3: "rapid (pressureDebounceMs ?s) latest evs"
      using rap Sensitivity by (simp add: sensitivity_fields)
    from Cons.IH [OF 1 2 3] show ?thesis
      using Sensitivity by (simp add: sensitivity_fields)
  qed
qed

lemma frame_dues:
  assumes ok: "timers_ok a"
  shows "\<forall>(h, t) \<in> set (timeouts (checkGridCellsForPressure a now m)).
           due t = now + pressureDebounceMs a"
  using frame_pending [OF ok] by (fastforce simp add: scheduled_def)

lemma frame_regions:
  assumes ok: "timers_ok a"
  shows "map (\<lambda>(h, t). gridIndex t) (timeouts (checkGridCellsForPressure a now m)) = [0 ..< 9]"
  unfolding frame_result [OF ok] by (simp add: comp_def scheduled_def map_idI)

lemma run_timers_ok: "timers_ok a \<Longrightarrow> timers_ok (app_run a evs)"
  unfolding app_run_def
proof (induction evs arbitrary: a)
  case Nil
  then show ?case by simp
next
  case (Cons ev evs)
  have "timers_ok (app_step a ev)"
    using Cons.prems
    by (cases ev) (simp_all add: frame_timers_ok fire_timers_ok sensitivity_timers_ok)
  then show ?case using Cons.IH by simp
qed

lemma frame30_region0: "regionMax frame30 (gridRegions ! 0) = Some 30"
  by code_simp

lemma init_fields:
  "timeoutsCreated app_init = 1" "pressureDebounceMs app_init = 50"
  "pressureThreshold app_init = 25" "transitions app_init = []"
  "gridCellPressureState app_init = replicate 9 False"
  by (simp_all add: app_init_def)

text \<open>
  C3, as stated, fails: the evaluation does not read the instantaneous state again when
  it fires; it uses the \<open>isPressed\<close> that its closure captured when it was scheduled. A
  frame with 30 in region 0 at threshold 25 schedules an evaluation; the threshold is then
  raised to 40, so when the timer fires the latest instantaneous state of the region
  (30 is not above 40) is unpressed, as is the committed state; still an ON event is
  emitted and committed.
\<close>

theorem stale_threshold_commits:
  "pressureThreshold (updateSensitivity (checkGridCellsForPressure app_init 0 frame30) 40) = 40
   \<and> regionMax frame30 (gridRegions ! 0) = Some 30
   \<and> above (regionMax frame30 (gridRegions ! 0)) 40 = False
   \<and> gridCellPressureState (updateSensitivity (checkGridCellsForPressure app_init 0 frame30) 40) ! 0
       = False
   \<and> gridCellDebounceTimers (updateSensitivity (checkGridCellsForPressure app_init 0 frame30) 40) ! 0
       = Some 1
   \<and> transitions (fireTimeout
         (updateSensitivity (checkGridCellsForPressure app_init 0 frame30) 40) 50 1)
       = [(0, True, Some 30)]
   \<and> gridCellPressureState (fireTimeout
         (updateSensitivity (checkGridCellsForPressure app_init 0 frame30) 40) 50 1) ! 0
       = True"
proof -
  have h: "timers_ok app_init \<and> (0::nat) < 9 \<and> 0 + pressureDebounceMs app_init \<le> 50"
    by (simp add: init_timers_ok init_fields)
  have c: "gridCellPressureState (updateSensitivity (checkGridCellsForPressure app_init 0 frame30) 40)
      = replicate 9 False"
    by (simp add: sensitivity_fields frame_unchanged init_timers_ok init_fields)
  have r: "replicate 9 False ! 0 = False" "(replicate 9 False)[0 := True] ! 0 = True"
    by simp_all
  show ?thesis
    using frame_then_fire [of app_init 0 0 50 frame30 40] h c r
    by (simp add: init_fields frame30_region0 above_def sensitivity_fields)
qed

text \<open>
  C3, amended. Every frame stores, for every region, a timer whose closure holds the
  pressed/unpressed determination of that frame, taken with the threshold in force when
  the frame was handled. When the timer fires, it reads the region's committed state and,
  only if the captured determination differs from it, emits the transition event (ON or
  OFF, with the captured maximum) and commits the captured determination; a timer that is
  not yet due does nothing. A change of the threshold between the frame and the firing
  does not enter the evaluation.
\<close>

theorem debounce_evaluation:
  "(timers_ok a \<and> gi < 9 \<longrightarrow>
      gridCellDebounceTimers (checkGridCellsForPressure a now m) ! gi
        = Some (timeoutsCreated a + gi)
      \<and> map_of (timeouts (checkGridCellsForPressure a now m)) (timeoutsCreated a + gi)
          = Some \<lparr>gridIndex = gi,
                  isPressed = above (regionMax m (gridRegions ! gi)) (pressureThreshold a),
                  maxPressureInRegion = regionMax m (gridRegions ! gi),
                  due = now + pressureDebounceMs a\<rparr>)
   \<and> (map_of (timeouts s) h = Some t \<and> due t \<le> fire_time
       \<and> gridIndex t < length (gridCellPressureState s) \<longrightarrow>
      gridCellPressureState (fireTimeout s fire_time h)
        = (gridCellPressureState s)[gridIndex t := isPressed t]
      \<and> transitions (fireTimeout s fire_time h)
          = transitions s @ (if isPressed t \<noteq> gridCellPressureState s ! gridIndex t
                             then [(gridIndex t, isPressed t, maxPressureInRegion t)] else []))
   \<and> (map_of (timeouts s) h = Some t \<and> fire_time < due t \<longrightarrow> fireTimeout s fire_time h = s)
   \<and> (timers_ok a \<and> gi < 9 \<and> now + pressureDebounceMs a \<le> fire_time \<longrightarrow>
      gridCellPressureState
         (fireTimeout (updateSensitivity (checkGridCellsForPressure a now m) v) fire_time
            (timeoutsCreated a + gi))
        = (gridCellPressureState a)
            [gi := above (regionMax m (gridRegions ! gi)) (pressureThreshold a)]
      \<and> transitions
         (fireTimeout (updateSensitivity (checkGridCellsForPressure a now m) v) fire_time
            (timeoutsCreated a + gi))
        = transitions a
            @ (if above (regionMax m (gridRegions ! gi)) (pressureThreshold a)
                    \<noteq> gridCellPressureState a ! gi
               then [(gi, above (regionMax m (gridRegions ! gi)) (pressureThreshold a),
                      regionMax m (gridRegions ! gi))]
               else []))"
proof (intro conjI impI)
  assume "timers_ok a \<and> gi < 9"
  then have ok: "timers_ok a" and gi: "gi < 9" by simp_all
  show "gridCellDebounceTimers (checkGridCellsForPressure a now m) ! gi
        = Some (timeoutsCreated a + gi)"
    using ok gi by (rule frame_slot(1))
  show "map_of (timeouts (checkGridCellsForPressure a now m)) (timeoutsCreated a + gi)
          = Some \<lparr>gridIndex = gi,
                  isPressed = above (regionMax m (gridRegions ! gi)) (pressureThreshold a),
                  maxPressureInRegion = regionMax m (gridRegions ! gi),
                  due = now + pressureDebounceMs a\<rparr>"
    using frame_slot(2) [OF ok gi] by (simp add: scheduled_def)
next
  assume "map_of (timeouts s) h = Some t \<and> due t \<le> fire_time
       \<and> gridIndex t < length (gridCellPressureState s)"
  then have p: "map_of (timeouts s) h = Some t" and d: "due t \<le> fire_time"
    and l: "gridIndex t < length (gridCellPressureState s)" by simp_all
  show "gridCellPressureState (fireTimeout s fire_time h)
        = (gridCellPressureState s)[gridIndex t := isPressed t]"
    using p d l by (rule fire_due(1))
  show "transitions (fireTimeout s fire_time h)
          = transitions s @ (if isPressed t \<noteq> gridCellPressureState s ! gridIndex t
                             then [(gridIndex t, isPressed t, maxPressureInRegion t)] else [])"
    using p d l by (rule fire_due(2))
next
  assume "map_of (timeouts s) h = Some t \<and> fire_time < due t"
  then show "fireTimeout s fire_time h = s" by (simp add: fire_not_due)
next
  assume a: "timers_ok a \<and> gi < 9 \<and> now + pressureDebounceMs a \<le> fire_time"
  show "gridCellPressureState
         (fireTimeout (updateSensitivity (checkGridCellsForPressure a now m) v) fire_time
            (timeoutsCreated a + gi))
        = (gridCellPressureState a)
            [gi := above (regionMax m (gridRegions ! gi)) (pressureThreshold a)]"
    using frame_then_fire [of a gi now fire_time m v] a by simp
  show "transitions
         (fireTimeout (updateSensitivity (checkGridCellsForPressure a now m) v) fire_time
            (timeoutsCreated a + gi))
        = transitions a
            @ (if above (regionMax m (gridRegions ! gi)) (pressureThreshold a)
                    \<noteq> gridCellPressureState a ! gi
               then [(gi, above (regionMax m (gridRegions ! gi)) (pressureThreshold a),
                      regionMax m (gridRegions ! gi))]
               else [])"
    using frame_then_fire [of a gi now fire_time m v] a by simp
qed

theorem debounce_evaluation_witness:
  "transitions (fireTimeout (updateSensitivity (checkGridCellsForPressure app_init 0 frame30) 25)
       50 1) = [(0, True, Some 30)]
   \<and> gridCellPressureState
       (fireTimeout (updateSensitivity (checkGridCellsForPressure app_init 0 frame30) 25) 50 1)
       = [True, False, False, False, False, False, False, False, False]
   \<and> fireTimeout (checkGridCellsForPressure app_init 0 frame30) 49 1
       = checkGridCellsForPressure app_init 0 frame30"
proof -
  have h: "timers_ok app_init \<and> (0::nat) < 9 \<and> 0 + pressureDebounceMs app_init \<le> 50"
    by (simp add: init_timers_ok init_fields)
  have r: "(replicate 9 False)[0 := True]
      = [True, False, False, False, False, False, False, False, False]"
    by code_simp
  have p: "map_of (timeouts (checkGridCellsForPressure app_init 0 frame30)) 1
      = Some (scheduled app_init 0 frame30 0)"
    using frame_slot(2) [OF init_timers_ok, of 0 0 frame30] by (simp add: init_fields)
  have d: "49 < due (scheduled app_init 0 frame30 0)"
    by (simp add: scheduled_def init_fields)
  show ?thesis
    using debounce_evaluation [of app_init 0 0 frame30
        "checkGridCellsForPressure app_init 0 frame30" 1 "scheduled app_init 0 frame30 0" 50 25]
      debounce_evaluation [of app_init 0 0 frame30
        "checkGridCellsForPressure app_init 0 frame30" 1 "scheduled app_init 0 frame30 0" 49 25]
      h r p d
    by (simp add: init_fields frame30_region0 above_def)
qed

text \<open>
  C4. In every state with well-formed timers (every state reached from the initial one by
  frames, timers and threshold changes is one), a frame leaves exactly one pending
  evaluation per region, due one debounce window after that frame: whatever was pending
  before is cancelled. The frame itself commits and emits nothing. Hence, as long as every
  further event comes less than a debounce window after the latest frame, no transition is
  emitted and no committed state changes, whatever values the frames carry; alternating
  values above and below the threshold are absorbed.
\<close>

theorem debounce_restarts:
  "timers_ok (app_run app_init history)
   \<and> (timers_ok a \<longrightarrow>
     (\<forall>(h, t) \<in> set (timeouts (checkGridCellsForPressure a now m)).
         due t = now + pressureDebounceMs a)
     \<and> map (\<lambda>(h, t). gridIndex t) (timeouts (checkGridCellsForPressure a now m)) = [0 ..< 9]
     \<and> gridCellPressureState (checkGridCellsForPressure a now m) = gridCellPressureState a
     \<and> transitions (checkGridCellsForPressure a now m) = transitions a
     \<and> (rapid (pressureDebounceMs a) now evs \<longrightarrow>
          transitions (app_run (checkGridCellsForPressure a now m) evs) = transitions a
          \<and> gridCellPressureState (app_run (checkGridCellsForPressure a now m) evs)
              = gridCellPressureState a))"
proof (intro impI conjI)
  show "timers_ok (app_run app_init history)"
    using init_timers_ok by (rule run_timers_ok)
next
  assume ok: "timers_ok a"
  let ?f = "checkGridCellsForPressure a now m"
  show "\<forall>(h, t) \<in> set (timeouts ?f). due t = now + pressureDebounceMs a"
    using ok by (rule frame_dues)
  show "map (\<lambda>(h, t). gridIndex t) (timeouts ?f) = [0 ..< 9]"
    using ok by (rule frame_regions)
  show "gridCellPressureState ?f = gridCellPressureState a"
    and "transitions ?f = transitions a"
    using ok by (simp_all add: frame_unchanged)
  have d: "pressureDebounceMs ?f = pressureDebounceMs a" using ok by (rule frame_unchanged(3))
  assume "rapid (pressureDebounceMs a) now evs"
  then have "transitions (app_run ?f evs) = transitions ?f
     \<and> gridCellPressureState (app_run ?f evs) = gridCellPressureState ?f"
    using frame_timers_ok [OF ok] frame_dues [OF ok] d by (intro rapid_run) simp_all
  then show "transitions (app_run ?f evs) = transitions a"
    and "gridCellPressureState (app_run ?f evs) = gridCellPressureState a"
    using ok by (simp_all add: frame_unchanged)
qed

theorem debounce_restarts_witness:
  "rapid 50 0 flicker
   \<and> transitions (app_run (checkGridCellsForPressure app_init 0 frame30) flicker) = []
   \<and> gridCellPressureState (app_run (checkGridCellsForPressure app_init 0 frame30) flicker)
       = replicate 9 False
   \<and> map (\<lambda>(h, t). gridIndex t) (timeouts (checkGridCellsForPressure app_init 0 frame30))
       = [0 ..< 9]"
proof -
  have r: "rapid 50 0 flicker" by (simp add: flicker_def)
  show ?thesis
    using debounce_restarts [of "[]" app_init 0 frame30 flicker] r init_timers_ok
    by (simp add: init_fields)
qed

end
